theory Spec2Isabelle
  imports Main "HOL-Library.AList"
begin

section \<open>Data model of the WebSocket hub (the hub part of internal/handlers/auth.go)\<close>

text \<open>
  A \<^verbatim>\<open>*Client\<close> pointer is an address. The \<^verbatim>\<open>Client\<close> objects live in a
  store indexed by address, because the global client set and every voice room refer to
  the same object and its \<^verbatim>\<open>send\<close> channel is mutated through either reference.
\<close>

type_synonym cid = nat

text \<open>
  \<^verbatim>\<open>WSEvent{Type, Data}\<close>. \<^verbatim>\<open>Data\<close> is one of the map literals the hub builds:
  its values are strings, a string slice (\<^verbatim>\<open>participants\<close>), booleans, or a
  \<^verbatim>\<open>json.RawMessage\<close> (\<^verbatim>\<open>payload\<close>).
\<close>

datatype jvalue = JString string | JStrings "string list" | JBool bool | JRaw string

record WSEvent =
  Type :: string
  Data :: "(string \<times> jvalue) list"

text \<open>
  The bytes put on a channel are kept as the JSON object they spell: \<open>Marshal e\<close> is
  the output of \<^verbatim>\<open>json.Marshal\<close> that has the type and the members of \<open>e\<close>, a
  \<open>JRaw\<close> member holding the bytes as they stand in the output. For strings,
  booleans and string slices the encoder (library code) is total and injective and is
  not spelled out; what it does to a \<^verbatim>\<open>json.RawMessage\<close> is modelled below.
\<close>

datatype wire = Marshal WSEvent

section \<open>The JSON encoder on a raw message (Go's encoding/json)\<close>

text \<open>
  \<^verbatim>\<open>json.Marshal\<close> writes a \<^verbatim>\<open>json.RawMessage\<close> through
  \<^verbatim>\<open>RawMessage.MarshalJSON\<close> (a nil message gives \<^verbatim>\<open>null\<close>) and then through
  \<^verbatim>\<open>compact\<close> with HTML escaping: the bytes are run through the scanner of the
  package, white space between tokens is dropped, \<^verbatim>\<open><\<close>, \<^verbatim>\<open>>\<close> and \<^verbatim>\<open>&\<close> are
  written as \<^verbatim>\<open>\u003c\<close>, \<^verbatim>\<open>\u003e\<close> and \<^verbatim>\<open>\u0026\<close>, the characters U+2028 and
  U+2029 as \<^verbatim>\<open>\u2028\<close> and \<^verbatim>\<open>\u2029\<close>, and a text that the scanner does not
  accept is an error. This is library code, not code of the repository; it is
  rendered here after the Go sources because the relay hands a raw message to it. Of
  the scanner's result codes only those that \<^verbatim>\<open>compact\<close> tells apart are kept
  (the codes below \<^verbatim>\<open>scanSkipSpace\<close> are all \<open>scanContinue\<close>), and \<open>err\<close> is
  whether \<^verbatim>\<open>scanner.err\<close> is set.
\<close>

datatype scanState =
  BeginValueOrEmpty | BeginValue | BeginStringOrEmpty | BeginString | EndValue | EndTop
| InString | InStringEsc | InStringEscU | InStringEscU1 | InStringEscU12 | InStringEscU123
| Neg | St1 | St0 | Dot | Dot0 | StE | ESign | E0
| StT | Tr | Tru | StF | Fa | Fal | Fals | StN | Nu | Nul
| StError

datatype parseState = parseObjectKey | parseObjectValue | parseArrayValue

datatype scanCode = scanContinue | scanSkipSpace | scanEnd | scanError

record scanner =
  step :: scanState
  parseStack :: "parseState list"
  endTop :: bool
  err :: bool

definition newScanner :: scanner where
  "newScanner = \<lparr>step = BeginValue, parseStack = [], endTop = False, err = False\<rparr>"

definition isSpace :: "char \<Rightarrow> bool" where
  "isSpace c = (c = CHR '' '' \<or> c = CHR 0x09 \<or> c = CHR 0x0D \<or> c = CHR 0x0A)"

definition isDigit :: "char \<Rightarrow> bool" where
  "isDigit c = (c \<in> set ''0123456789'')"

definition isHex :: "char \<Rightarrow> bool" where
  "isHex c = (c \<in> set ''0123456789abcdefABCDEF'')"

definition scan_error :: "scanner \<Rightarrow> scanCode \<times> scanner" where
  "scan_error s = (scanError, s\<lparr>step := StError, err := True\<rparr>)"

definition goto :: "scanState \<Rightarrow> scanner \<Rightarrow> scanCode \<times> scanner" where
  "goto st s = (scanContinue, s\<lparr>step := st\<rparr>)"

definition pushParseState :: "parseState \<Rightarrow> scanState \<Rightarrow> scanner \<Rightarrow> scanCode \<times> scanner" where
  "pushParseState p st s =
     (let s' = s\<lparr>step := st, parseStack := p # parseStack s\<rparr>
      in if length (parseStack s') \<le> 10000 then (scanContinue, s') else scan_error s')"

definition popParseState :: "scanner \<Rightarrow> scanner" where
  "popParseState s =
     (let rest = tl (parseStack s)
      in if rest = [] then s\<lparr>parseStack := rest, step := EndTop, endTop := True\<rparr>
         else s\<lparr>parseStack := rest, step := EndValue\<rparr>)"

definition stateEndTop :: "scanner \<Rightarrow> char \<Rightarrow> scanCode \<times> scanner" where
  "stateEndTop s c =
     (if \<not> isSpace c then (scanEnd, s\<lparr>step := StError, err := True\<rparr>) else (scanEnd, s))"

definition stateEndValue :: "scanner \<Rightarrow> char \<Rightarrow> scanCode \<times> scanner" where
  "stateEndValue s c =
     (case parseStack s of
        [] \<Rightarrow> stateEndTop (s\<lparr>step := EndTop, endTop := True\<rparr>) c
      | ps # rest \<Rightarrow>
         if isSpace c then (scanSkipSpace, s\<lparr>step := EndValue\<rparr>)
         else (case ps of
            parseObjectKey \<Rightarrow>
              if c = CHR '':'' then (scanContinue, s\<lparr>parseStack := parseObjectValue # rest, step := BeginValue\<rparr>)
              else scan_error s
          | parseObjectValue \<Rightarrow>
              if c = CHR '','' then (scanContinue, s\<lparr>parseStack := parseObjectKey # rest, step := BeginString\<rparr>)
              else if c = CHR ''}'' then (scanContinue, popParseState s)
              else scan_error s
          | parseArrayValue \<Rightarrow>
              if c = CHR '','' then goto BeginValue s
              else if c = CHR '']'' then (scanContinue, popParseState s)
              else scan_error s))"

definition stateBeginValue :: "scanner \<Rightarrow> char \<Rightarrow> scanCode \<times> scanner" where
  "stateBeginValue s c =
     (if isSpace c then (scanSkipSpace, s)
      else if c = CHR ''{'' then pushParseState parseObjectKey BeginStringOrEmpty s
      else if c = CHR ''['' then pushParseState parseArrayValue BeginValueOrEmpty s
      else if c = CHR 0x22 then goto InString s
      else if c = CHR ''-'' then goto Neg s
      else if c = CHR ''0'' then goto St0 s
      else if c = CHR ''t'' then goto StT s
      else if c = CHR ''f'' then goto StF s
      else if c = CHR ''n'' then goto StN s
      else if isDigit c then goto St1 s
      else scan_error s)"

definition stateBeginValueOrEmpty :: "scanner \<Rightarrow> char \<Rightarrow> scanCode \<times> scanner" where
  "stateBeginValueOrEmpty s c =
     (if isSpace c then (scanSkipSpace, s)
      else if c = CHR '']'' then stateEndValue s c
      else stateBeginValue s c)"

definition stateBeginString :: "scanner \<Rightarrow> char \<Rightarrow> scanCode \<times> scanner" where
  "stateBeginString s c =
     (if isSpace c then (scanSkipSpace, s)
      else if c = CHR 0x22 then goto InString s
      else scan_error s)"

definition stateBeginStringOrEmpty :: "scanner \<Rightarrow> char \<Rightarrow> scanCode \<times> scanner" where
  "stateBeginStringOrEmpty s c =
     (if isSpace c then (scanSkipSpace, s)
      else if c = CHR ''}'' then
        stateEndValue (s\<lparr>parseStack := parseObjectValue # tl (parseStack s)\<rparr>) c
      else stateBeginString s c)"

definition stateInString :: "scanner \<Rightarrow> char \<Rightarrow> scanCode \<times> scanner" where
  "stateInString s c =
     (if c = CHR 0x22 then goto EndValue s
      else if c = CHR 0x5C then goto InStringEsc s
      else if (of_char c :: nat) < 0x20 then scan_error s
      else (scanContinue, s))"

definition stateInStringEsc :: "scanner \<Rightarrow> char \<Rightarrow> scanCode \<times> scanner" where
  "stateInStringEsc s c =
     (if c \<in> set [CHR ''b'', CHR ''f'', CHR ''n'', CHR ''r'', CHR ''t'', CHR 0x5C, CHR ''/'', CHR 0x22]
      then goto InString s
      else if c = CHR ''u'' then goto InStringEscU s
      else scan_error s)"

definition stateHex :: "scanState \<Rightarrow> scanner \<Rightarrow> char \<Rightarrow> scanCode \<times> scanner" where
  "stateHex next s c = (if isHex c then goto next s else scan_error s)"

definition state0 :: "scanner \<Rightarrow> char \<Rightarrow> scanCode \<times> scanner" where
  "state0 s c =
     (if c = CHR ''.'' then goto Dot s
      else if c = CHR ''e'' \<or> c = CHR ''E'' then goto StE s
      else stateEndValue s c)"

definition state1 :: "scanner \<Rightarrow> char \<Rightarrow> scanCode \<times> scanner" where
  "state1 s c = (if isDigit c then goto St1 s else state0 s c)"

definition stateNeg :: "scanner \<Rightarrow> char \<Rightarrow> scanCode \<times> scanner" where
  "stateNeg s c =
     (if c = CHR ''0'' then goto St0 s
      else if isDigit c then goto St1 s
      else scan_error s)"

definition stateDot :: "scanner \<Rightarrow> char \<Rightarrow> scanCode \<times> scanner" where
  "stateDot s c = (if isDigit c then goto Dot0 s else scan_error s)"

definition stateDot0 :: "scanner \<Rightarrow> char \<Rightarrow> scanCode \<times> scanner" where
  "stateDot0 s c =
     (if isDigit c then (scanContinue, s)
      else if c = CHR ''e'' \<or> c = CHR ''E'' then goto StE s
      else stateEndValue s c)"

definition stateESign :: "scanner \<Rightarrow> char \<Rightarrow> scanCode \<times> scanner" where
  "stateESign s c = (if isDigit c then goto E0 s else scan_error s)"

definition stateE :: "scanner \<Rightarrow> char \<Rightarrow> scanCode \<times> scanner" where
  "stateE s c = (if c = CHR ''+'' \<or> c = CHR ''-'' then goto ESign s else stateESign s c)"

definition stateE0 :: "scanner \<Rightarrow> char \<Rightarrow> scanCode \<times> scanner" where
  "stateE0 s c = (if isDigit c then (scanContinue, s) else stateEndValue s c)"

definition stateLit :: "char \<Rightarrow> scanState \<Rightarrow> scanner \<Rightarrow> char \<Rightarrow> scanCode \<times> scanner" where
  "stateLit want next s c = (if c = want then goto next s else scan_error s)"

definition scan_step :: "scanner \<Rightarrow> char \<Rightarrow> scanCode \<times> scanner" where
  "scan_step s c =
     (case step s of
        BeginValueOrEmpty \<Rightarrow> stateBeginValueOrEmpty s c
      | BeginValue \<Rightarrow> stateBeginValue s c
      | BeginStringOrEmpty \<Rightarrow> stateBeginStringOrEmpty s c
      | BeginString \<Rightarrow> stateBeginString s c
      | EndValue \<Rightarrow> stateEndValue s c
      | EndTop \<Rightarrow> stateEndTop s c
      | InString \<Rightarrow> stateInString s c
      | InStringEsc \<Rightarrow> stateInStringEsc s c
      | InStringEscU \<Rightarrow> stateHex InStringEscU1 s c
      | InStringEscU1 \<Rightarrow> stateHex InStringEscU12 s c
      | InStringEscU12 \<Rightarrow> stateHex InStringEscU123 s c
      | InStringEscU123 \<Rightarrow> stateHex InString s c
      | Neg \<Rightarrow> stateNeg s c
      | St1 \<Rightarrow> state1 s c
      | St0 \<Rightarrow> state0 s c
      | Dot \<Rightarrow> stateDot s c
      | Dot0 \<Rightarrow> stateDot0 s c
      | StE \<Rightarrow> stateE s c
      | ESign \<Rightarrow> stateESign s c
      | E0 \<Rightarrow> stateE0 s c
      | StT \<Rightarrow> stateLit CHR ''r'' Tr s c
      | Tr \<Rightarrow> stateLit CHR ''u'' Tru s c
      | Tru \<Rightarrow> stateLit CHR ''e'' EndValue s c
      | StF \<Rightarrow> stateLit CHR ''a'' Fa s c
      | Fa \<Rightarrow> stateLit CHR ''l'' Fal s c
      | Fal \<Rightarrow> stateLit CHR ''s'' Fals s c
      | Fals \<Rightarrow> stateLit CHR ''e'' EndValue s c
      | StN \<Rightarrow> stateLit CHR ''u'' Nu s c
      | Nu \<Rightarrow> stateLit CHR ''l'' Nul s c
      | Nul \<Rightarrow> stateLit CHR ''l'' EndValue s c
      | StError \<Rightarrow> (scanError, s))"

definition scan_eof :: "scanner \<Rightarrow> bool" where
  "scan_eof s =
     (if err s then False
      else if endTop s then True
      else endTop (snd (scan_step s CHR '' '')))"

definition htmlEscape :: "char \<Rightarrow> string" where
  "htmlEscape c =
     (if c = CHR ''<'' then [CHR 0x5C] @ ''u003c''
      else if c = CHR ''>'' then [CHR 0x5C] @ ''u003e''
      else [CHR 0x5C] @ ''u0026'')"

fun compact_loop :: "scanner \<Rightarrow> nat \<Rightarrow> string \<Rightarrow> string option" where
  "compact_loop s skip [] = (if scan_eof s then Some [] else None)"
| "compact_loop s skip (c # cs) =
     (let lineSep = (skip = 0 \<and> c = CHR 0xE2 \<and>
                     (case cs of c1 # c2 # _ \<Rightarrow> c1 = CHR 0x80 \<and> (c2 = CHR 0xA8 \<or> c2 = CHR 0xA9)
                               | _ \<Rightarrow> False));
          emit = (if skip > 0 then []
                  else if c = CHR ''<'' \<or> c = CHR ''>'' \<or> c = CHR ''&'' then htmlEscape c
                  else if lineSep then [CHR 0x5C] @ ''u202'' @ (if hd (tl cs) = CHR 0xA8 then ''8'' else ''9'')
                  else [c]);
          skip' = (if lineSep then 2 else skip - 1)
      in case scan_step s c of
           (v, s') \<Rightarrow>
             if v = scanError then None
             else (case compact_loop s' skip' cs of
                     None \<Rightarrow> None
                   | Some out \<Rightarrow>
                       Some ((if v = scanSkipSpace \<or> v = scanEnd then [] else emit) @ out)))"

definition compact :: "string \<Rightarrow> string option" where
  "compact src = compact_loop newScanner 0 src"

text \<open>\<^verbatim>\<open>RawMessage.MarshalJSON\<close>; the nil message is the empty byte string.\<close>

definition RawMessage_MarshalJSON :: "string \<Rightarrow> string" where
  "RawMessage_MarshalJSON m = (if m = [] then ''null'' else m)"

definition encodeRaw :: "string \<Rightarrow> string option" where
  "encodeRaw m = compact (RawMessage_MarshalJSON m)"

text \<open>
  \<^verbatim>\<open>json.Marshal\<close> on an event: \<open>None\<close> is its error, which only a raw member
  can cause.
\<close>

fun encode_members :: "(string \<times> jvalue) list \<Rightarrow> (string \<times> jvalue) list option" where
  "encode_members [] = Some []"
| "encode_members ((k, JRaw m) # rest) =
     (case encodeRaw m of
        None \<Rightarrow> None
      | Some bytes \<Rightarrow> map_option (\<lambda>ms. (k, JRaw bytes) # ms) (encode_members rest))"
| "encode_members ((k, v) # rest) = map_option (\<lambda>ms. (k, v) # ms) (encode_members rest)"

definition json_Marshal :: "WSEvent \<Rightarrow> wire option" where
  "json_Marshal event =
     map_option (\<lambda>ms. Marshal (event\<lparr>Data := ms\<rparr>)) (encode_members (Data event))"

text \<open>
  A buffered Go channel: the queued elements, oldest first, and whether it has been
  closed. Both kinds of channel in the hub are made with capacity 256
  (\<^verbatim>\<open>make(chan []byte, 256)\<close> in \<^verbatim>\<open>NewHub\<close> and in the WebSocket handler).
\<close>

record chan =
  buf :: "wire list"
  closed :: bool

definition chan_cap :: nat where
  "chan_cap = 256"

record Client =
  userID :: string
  channelID :: string
  send :: chan

text \<open>
  \<^verbatim>\<open>Hub\<close>: \<^verbatim>\<open>clients\<close> and every room are Go maps used as sets of pointers, kept
  here as lists of keys; \<^verbatim>\<open>voiceRooms\<close> is an association list from channel id to
  room. Go leaves the iteration order of a map open; the loops below visit the keys in
  list order. \<^verbatim>\<open>store\<close> holds the objects the pointers refer to.
\<close>

record Hub =
  clients :: "cid list"
  broadcast :: "wire list"
  voiceRooms :: "(string \<times> cid list) list"
  store :: "cid \<Rightarrow> Client"

text \<open>
  What can stop a call: the two run-time panics of channels, and a blocking send on
  the full \<^verbatim>\<open>broadcast\<close> channel (the caller waits; no step of the caller itself
  makes room).
\<close>

datatype fault = SendOnClosedChannel | CloseOfClosedChannel | WouldBlock

definition bindR :: "fault + 'a \<Rightarrow> ('a \<Rightarrow> fault + 'b) \<Rightarrow> fault + 'b" where
  "bindR r f = (case r of Inl e \<Rightarrow> Inl e | Inr x \<Rightarrow> f x)"

section \<open>Channels\<close>

text \<open>
  \<^verbatim>\<open>select { case ch <- data: default: }\<close>: panics on a closed channel, enqueues
  when the buffer has room, and otherwise takes the default branch. The flag tells
  whether the send case was taken.
\<close>

definition trySend :: "chan \<Rightarrow> wire \<Rightarrow> fault + bool \<times> chan" where
  "trySend ch data =
     (if closed ch then Inl SendOnClosedChannel
      else if length (buf ch) < chan_cap then Inr (True, ch\<lparr>buf := buf ch @ [data]\<rparr>)
      else Inr (False, ch))"

text \<open>\<^verbatim>\<open>close(ch)\<close>: panics when the channel is already closed.\<close>

definition closeChan :: "chan \<Rightarrow> fault + chan" where
  "closeChan ch = (if closed ch then Inl CloseOfClosedChannel else Inr (ch\<lparr>closed := True\<rparr>))"

text \<open>
  The loop shared by \<^verbatim>\<open>Run\<close> (broadcast case), \<^verbatim>\<open>BroadcastToChannel\<close>,
  \<^verbatim>\<open>SendToUser\<close> and \<^verbatim>\<open>BroadcastToVoiceRoom\<close>: for every client of the range
  that passes the loop's test, a non-blocking send. It returns the clients whose send
  fell through to \<^verbatim>\<open>default\<close> (the \<^verbatim>\<open>dead\<close> slice of \<^verbatim>\<open>Run\<close>; the other three
  callers ignore it).
\<close>

fun send_loop ::
  "(cid \<Rightarrow> Client \<Rightarrow> bool) \<Rightarrow> wire \<Rightarrow> cid list \<Rightarrow> (cid \<Rightarrow> Client) \<Rightarrow> fault + cid list \<times> (cid \<Rightarrow> Client)"
where
  "send_loop want data [] st = Inr ([], st)"
| "send_loop want data (client # rest) st =
     (if want client (st client) then
        (case trySend (send (st client)) data of
           Inl e \<Rightarrow> Inl e
         | Inr (sent, ch') \<Rightarrow>
            (case send_loop want data rest (st(client := (st client)\<lparr>send := ch'\<rparr>)) of
               Inl e \<Rightarrow> Inl e
             | Inr (dead, st') \<Rightarrow> Inr (if sent then dead else client # dead, st')))
      else send_loop want data rest st)"

section \<open>Hub operations\<close>

definition room_of :: "(string \<times> cid list) list \<Rightarrow> string \<Rightarrow> cid list" where
  "room_of rooms chID = (case map_of rooms chID of None \<Rightarrow> [] | Some room \<Rightarrow> room)"

text \<open>
  \<^verbatim>\<open>NewHub\<close>: no client, no room, nothing to broadcast. The argument is the store
  of the \<^verbatim>\<open>Client\<close> objects that the WebSocket handler will create.
\<close>

definition NewHub :: "(cid \<Rightarrow> Client) \<Rightarrow> Hub" where
  "NewHub objs = \<lparr>clients = [], broadcast = [], voiceRooms = [], store = objs\<rparr>"

text \<open>\<^verbatim>\<open>Hub.Broadcast\<close>: a blocking send on \<^verbatim>\<open>h.broadcast\<close>.\<close>

definition Broadcast :: "WSEvent \<Rightarrow> Hub \<Rightarrow> fault + Hub" where
  "Broadcast event h =
     (if length (broadcast h) < chan_cap
      then Inr (h\<lparr>broadcast := broadcast h @ [Marshal event]\<rparr>)
      else Inl WouldBlock)"

text \<open>
  The three targeted deliveries. Each is the send loop over its range with its test:
  the viewed channel, the user id, and not being the excluded client. The hub calls
  \<^verbatim>\<open>BroadcastToChannel\<close>, \<^verbatim>\<open>BroadcastToVoiceRoom\<close>, \<^verbatim>\<open>Broadcast\<close> and
  \<^verbatim>\<open>sendEvent\<close> with events of strings, booleans and string slices only, on which
  \<^verbatim>\<open>json.Marshal\<close> returns no error and rewrites nothing (lemma
  \<open>json_Marshal_plain\<close>), so they queue \<open>Marshal event\<close>. \<^verbatim>\<open>SendToUser\<close> is
  called with the relayed payload, a raw message, and has the encoder and its error
  return (\<^verbatim>\<open>if err != nil { return }\<close>) spelled out.
\<close>

definition BroadcastToChannel :: "string \<Rightarrow> WSEvent \<Rightarrow> Hub \<Rightarrow> fault + Hub" where
  "BroadcastToChannel chID event h =
     (case send_loop (\<lambda>c cl. channelID cl = chID) (Marshal event) (clients h) (store h) of
        Inl e \<Rightarrow> Inl e
      | Inr (dead, st') \<Rightarrow> Inr (h\<lparr>store := st'\<rparr>))"

definition SendToUser :: "string \<Rightarrow> WSEvent \<Rightarrow> Hub \<Rightarrow> fault + Hub" where
  "SendToUser targetUserID event h =
     (case json_Marshal event of
        None \<Rightarrow> Inr h
      | Some data \<Rightarrow>
         (case send_loop (\<lambda>c cl. userID cl = targetUserID) data (clients h) (store h) of
            Inl e \<Rightarrow> Inl e
          | Inr (dead, st') \<Rightarrow> Inr (h\<lparr>store := st'\<rparr>)))"

definition BroadcastToVoiceRoom :: "string \<Rightarrow> WSEvent \<Rightarrow> cid option \<Rightarrow> Hub \<Rightarrow> fault + Hub" where
  "BroadcastToVoiceRoom chID event exclude h =
     (case map_of (voiceRooms h) chID of
        None \<Rightarrow> Inr h
      | Some room \<Rightarrow>
         (case send_loop (\<lambda>c cl. Some c \<noteq> exclude) (Marshal event) room (store h) of
            Inl e \<Rightarrow> Inl e
          | Inr (dead, st') \<Rightarrow> Inr (h\<lparr>store := st'\<rparr>)))"

definition joinVoiceRoom :: "string \<Rightarrow> cid \<Rightarrow> Hub \<Rightarrow> string list \<times> Hub" where
  "joinVoiceRoom chID client h =
     (let rooms1 = (if map_of (voiceRooms h) chID = None
                    then AList.update chID [] (voiceRooms h) else voiceRooms h);
          room = room_of rooms1 chID;
          existing = map (\<lambda>c. userID (store h c)) room;
          room' = (if client \<in> set room then room else room @ [client])
      in (existing, h\<lparr>voiceRooms := AList.update chID room' rooms1\<rparr>))"

definition leaveVoiceRoom :: "string \<Rightarrow> cid \<Rightarrow> Hub \<Rightarrow> bool \<times> Hub" where
  "leaveVoiceRoom chID client h =
     (case map_of (voiceRooms h) chID of
        None \<Rightarrow> (False, h)
      | Some room \<Rightarrow>
         if client \<notin> set room then (False, h)
         else (let room' = removeAll client room
               in if length room' = 0
                  then (True, h\<lparr>voiceRooms := AList.delete chID (voiceRooms h)\<rparr>)
                  else (True, h\<lparr>voiceRooms := AList.update chID room' (voiceRooms h)\<rparr>)))"

text \<open>
  The critical section of \<^verbatim>\<open>leaveAllVoiceRooms\<close>: the range over \<^verbatim>\<open>h.voiceRooms\<close>,
  giving the affected channel ids and the registry that is left.
\<close>

fun leaveAll_rooms :: "cid \<Rightarrow> (string \<times> cid list) list \<Rightarrow> string list \<times> (string \<times> cid list) list" where
  "leaveAll_rooms client [] = ([], [])"
| "leaveAll_rooms client ((chID, room) # rest) =
     (case leaveAll_rooms client rest of (affected, rest') \<Rightarrow>
        if client \<in> set room
        then (chID # affected,
              (let room' = removeAll client room
               in if length room' = 0 then rest' else (chID, room') # rest'))
        else (affected, (chID, room) # rest'))"

definition voice_left :: "string \<Rightarrow> string \<Rightarrow> WSEvent" where
  "voice_left chID uid =
     \<lparr>Type = ''voice.left'', Data = [(''channel_id'', JString chID), (''user_id'', JString uid)]\<rparr>"

text \<open>The second loop of \<^verbatim>\<open>leaveAllVoiceRooms\<close>: one event per affected room.\<close>

fun leaveAll_events :: "cid \<Rightarrow> string list \<Rightarrow> Hub \<Rightarrow> fault + Hub" where
  "leaveAll_events client [] h = Inr h"
| "leaveAll_events client (chID # rest) h =
     (let evt = voice_left chID (userID (store h client))
      in bindR (BroadcastToVoiceRoom chID evt None h) (\<lambda>h1.
         bindR (Broadcast evt h1) (\<lambda>h2.
         leaveAll_events client rest h2)))"

definition leaveAllVoiceRooms :: "cid \<Rightarrow> Hub \<Rightarrow> fault + Hub" where
  "leaveAllVoiceRooms client h =
     (case leaveAll_rooms client (voiceRooms h) of (affected, rooms') \<Rightarrow>
        leaveAll_events client affected (h\<lparr>voiceRooms := rooms'\<rparr>))"

text \<open>The flag loop of \<^verbatim>\<open>AreInSameVoiceRoom\<close>.\<close>

fun found_loop :: "(cid \<Rightarrow> Client) \<Rightarrow> string \<Rightarrow> string \<Rightarrow> cid list \<Rightarrow> bool \<times> bool \<Rightarrow> bool \<times> bool" where
  "found_loop st userA userB [] (foundA, foundB) = (foundA, foundB)"
| "found_loop st userA userB (c # rest) (foundA, foundB) =
     found_loop st userA userB rest
       (if userID (st c) = userA then True else foundA,
        if userID (st c) = userB then True else foundB)"

definition AreInSameVoiceRoom :: "string \<Rightarrow> string \<Rightarrow> string \<Rightarrow> Hub \<Rightarrow> bool" where
  "AreInSameVoiceRoom chID userA userB h =
     (case map_of (voiceRooms h) chID of
        None \<Rightarrow> False
      | Some room \<Rightarrow>
         (case found_loop (store h) userA userB room (False, False) of
            (foundA, foundB) \<Rightarrow> foundA \<and> foundB))"

definition GetVoiceRoomSnapshot :: "Hub \<Rightarrow> (string \<times> string list) list" where
  "GetVoiceRoomSnapshot h =
     map (\<lambda>(chID, room). (chID, map (\<lambda>c. userID (store h c)) room)) (voiceRooms h)"

definition SetChannel :: "cid \<Rightarrow> string \<Rightarrow> Hub \<Rightarrow> Hub" where
  "SetChannel c chID h = h\<lparr>store := (store h)(c := (store h c)\<lparr>channelID := chID\<rparr>)\<rparr>"

definition sendEvent :: "cid \<Rightarrow> WSEvent \<Rightarrow> Hub \<Rightarrow> fault + Hub" where
  "sendEvent c event h =
     (case trySend (send (store h c)) (Marshal event) of
        Inl e \<Rightarrow> Inl e
      | Inr (sent, ch') \<Rightarrow> Inr (h\<lparr>store := (store h)(c := (store h c)\<lparr>send := ch'\<rparr>)\<rparr>))"

section \<open>The hub's event loop\<close>

text \<open>The eviction pass of the broadcast case, under the write lock.\<close>

fun evict :: "cid list \<Rightarrow> Hub \<Rightarrow> fault + Hub" where
  "evict [] h = Inr h"
| "evict (client # rest) h =
     (if client \<in> set (clients h) then
        (case closeChan (send (store h client)) of
           Inl e \<Rightarrow> Inl e
         | Inr ch' \<Rightarrow>
            evict rest (h\<lparr>clients := removeAll client (clients h),
                         store := (store h)(client := (store h client)\<lparr>send := ch'\<rparr>)\<rparr>))
      else evict rest h)"

text \<open>The bodies of the three cases of the \<^verbatim>\<open>select\<close> in \<^verbatim>\<open>Hub.Run\<close>.\<close>

definition Run_register :: "cid \<Rightarrow> Hub \<Rightarrow> Hub" where
  "Run_register client h = h\<lparr>clients := List.insert client (clients h)\<rparr>"

definition Run_unregister :: "cid \<Rightarrow> Hub \<Rightarrow> fault + Hub" where
  "Run_unregister client h =
     bindR (if client \<in> set (clients h) then
              (case closeChan (send (store h client)) of
                 Inl e \<Rightarrow> Inl e
               | Inr ch' \<Rightarrow>
                  Inr (h\<lparr>clients := removeAll client (clients h),
                         store := (store h)(client := (store h client)\<lparr>send := ch'\<rparr>)\<rparr>))
            else Inr h)
       (leaveAllVoiceRooms client)"

definition Run_broadcast :: "wire \<Rightarrow> Hub \<Rightarrow> fault + Hub" where
  "Run_broadcast message h =
     (case send_loop (\<lambda>c cl. True) message (clients h) (store h) of
        Inl e \<Rightarrow> Inl e
      | Inr (dead, st') \<Rightarrow>
         if length dead > 0 then evict dead (h\<lparr>store := st'\<rparr>) else Inr (h\<lparr>store := st'\<rparr>))"

text \<open>
  One turn of \<^verbatim>\<open>for { select { ... } }\<close> in \<^verbatim>\<open>Hub.Run\<close>, given the case that is
  taken. The broadcast case needs a message in \<^verbatim>\<open>h.broadcast\<close>.
\<close>

datatype select_case = RecvRegister cid | RecvUnregister cid | RecvBroadcast

fun Run :: "select_case \<Rightarrow> Hub \<Rightarrow> fault + Hub" where
  "Run (RecvRegister client) h = Inr (Run_register client h)"
| "Run (RecvUnregister client) h = Run_unregister client h"
| "Run RecvBroadcast h =
     (case broadcast h of
        [] \<Rightarrow> Inl WouldBlock
      | message # pending \<Rightarrow> Run_broadcast message (h\<lparr>broadcast := pending\<rparr>))"

section \<open>Inbound frames\<close>

text \<open>
  \<^verbatim>\<open>rawClientMessage\<close> after the first \<^verbatim>\<open>json.Unmarshal\<close>; its fields
  \<^verbatim>\<open>Type\<close> and \<^verbatim>\<open>Data\<close> are \<open>msgType\<close> and \<open>msgData\<close> here, the names
  being taken by \<^verbatim>\<open>WSEvent\<close>. \<open>msgData\<close> is the outcome of the second
  \<^verbatim>\<open>json.Unmarshal(evt.Data, &d)\<close> into the struct \<^verbatim>\<open>d\<close> of the case that the
  type selects: \<open>None\<close> when it returns an error, otherwise the decoded struct, in
  which an absent field has Go's zero value (\<open>''''\<close>, \<open>False\<close>). The record
  \<open>wsdata\<close> has the fields of all these structs; each case reads only its own.
  \<open>payload\<close> holds the bytes of the \<^verbatim>\<open>json.RawMessage\<close>, the empty string for the
  nil message of a frame without payload; the decoder stores the bytes of a present
  payload as they came, and they are never empty.
\<close>

record wsdata =
  channel_id :: string
  target_user_id :: string
  payload :: string
  cam_enabled :: bool
  screen_sharing :: bool

record rawClientMessage =
  msgType :: string
  msgData :: "wsdata option"

definition voice_joined :: "string \<Rightarrow> string \<Rightarrow> WSEvent" where
  "voice_joined chID uid =
     \<lparr>Type = ''voice.joined'', Data = [(''channel_id'', JString chID), (''user_id'', JString uid)]\<rparr>"

definition room_state :: "string \<Rightarrow> string list \<Rightarrow> WSEvent" where
  "room_state chID existing =
     \<lparr>Type = ''voice.room_state'',
      Data = [(''channel_id'', JString chID), (''participants'', JStrings existing)]\<rparr>"

definition relay_event :: "string \<Rightarrow> string \<Rightarrow> wsdata \<Rightarrow> WSEvent" where
  "relay_event ty uid d =
     \<lparr>Type = ty,
      Data = [(''channel_id'', JString (channel_id d)), (''from_user_id'', JString uid),
              (''payload'', JRaw (payload d))]\<rparr>"

definition media_state_event :: "string \<Rightarrow> wsdata \<Rightarrow> WSEvent" where
  "media_state_event uid d =
     \<lparr>Type = ''voice.media_state'',
      Data = [(''channel_id'', JString (channel_id d)), (''from_user_id'', JString uid),
              (''cam_enabled'', JBool (cam_enabled d)),
              (''screen_sharing'', JBool (screen_sharing d))]\<rparr>"

definition typing_event :: "string \<Rightarrow> string \<Rightarrow> WSEvent" where
  "typing_event uid chID =
     \<lparr>Type = ''typing'', Data = [(''user_id'', JString uid), (''channel_id'', JString chID)]\<rparr>"

definition handleMessage :: "cid \<Rightarrow> rawClientMessage \<Rightarrow> Hub \<Rightarrow> fault + Hub" where
  "handleMessage c evt h =
     (if msgType evt = ''subscribe'' then
        (case msgData evt of
           Some d \<Rightarrow> Inr (SetChannel c (channel_id d) h)
         | None \<Rightarrow> Inr h)
      else if msgType evt = ''typing'' then
        (case msgData evt of
           Some d \<Rightarrow> BroadcastToChannel (channel_id d)
                       (typing_event (userID (store h c)) (channel_id d)) h
         | None \<Rightarrow> Inr h)
      else if msgType evt = ''voice.join'' then
        (case msgData evt of
           None \<Rightarrow> Inr h
         | Some d \<Rightarrow>
            if channel_id d = '''' then Inr h
            else (case joinVoiceRoom (channel_id d) c h of (existing, h1) \<Rightarrow>
                    bindR (sendEvent c (room_state (channel_id d) existing) h1) (\<lambda>h2.
                    bindR (BroadcastToVoiceRoom (channel_id d)
                             (voice_joined (channel_id d) (userID (store h2 c))) (Some c) h2) (\<lambda>h3.
                    Broadcast (voice_joined (channel_id d) (userID (store h3 c))) h3))))
      else if msgType evt = ''voice.leave'' then
        (case msgData evt of
           None \<Rightarrow> Inr h
         | Some d \<Rightarrow>
            if channel_id d = '''' then Inr h
            else (case leaveVoiceRoom (channel_id d) c h of (was_in, h1) \<Rightarrow>
                    if was_in then
                      (let evt' = voice_left (channel_id d) (userID (store h1 c))
                       in bindR (BroadcastToVoiceRoom (channel_id d) evt' None h1)
                                (Broadcast evt'))
                    else Inr h1))
      else if msgType evt = ''voice.offer'' \<or> msgType evt = ''voice.answer''
              \<or> msgType evt = ''voice.ice'' then
        (case msgData evt of
           None \<Rightarrow> Inr h
         | Some d \<Rightarrow>
            if target_user_id d = '''' then Inr h
            else if \<not> AreInSameVoiceRoom (channel_id d) (userID (store h c)) (target_user_id d) h
            then Inr h
            else SendToUser (target_user_id d)
                   (relay_event (msgType evt) (userID (store h c)) d) h)
      else if msgType evt = ''voice.media_state'' then
        (case msgData evt of
           None \<Rightarrow> Inr h
         | Some d \<Rightarrow>
            if channel_id d = '''' then Inr h
            else BroadcastToVoiceRoom (channel_id d)
                   (media_state_event (userID (store h c)) d) (Some c) h)
      else Inr h)"




section \<open>Notions used in the statements\<close>

text \<open>
  What a non-blocking send makes of a client whose channel is open: the message is
  appended when the buffer has room, and the client is left as it is otherwise.
\<close>

definition offer :: "wire \<Rightarrow> Client \<Rightarrow> Client" where
  "offer data cl =
     (if length (buf (send cl)) < chan_cap
      then cl\<lparr>send := (send cl)\<lparr>buf := buf (send cl) @ [data]\<rparr>\<rparr> else cl)"

text \<open>
  A loop test that does not look at the \<^verbatim>\<open>send\<close> field.
\<close>

definition send_stable :: "(cid \<Rightarrow> Client \<Rightarrow> bool) \<Rightarrow> bool" where
  "send_stable want = (\<forall>c cl s. want c (cl\<lparr>send := s\<rparr>) = want c cl)"

text \<open>
  No room of the registry is empty; a connection is in no room.
\<close>

definition no_empty_room :: "(string \<times> cid list) list \<Rightarrow> bool" where
  "no_empty_room rooms = list_all (\<lambda>(chID, room). room \<noteq> []) rooms"

definition in_no_room :: "cid \<Rightarrow> (string \<times> cid list) list \<Rightarrow> bool" where
  "in_no_room c rooms = list_all (\<lambda>(chID, room). c \<notin> set room) rooms"

text \<open>
  The registered connections are pairwise different and their queues are open. The
  hub closes a queue only together with removing its connection from the client set,
  so this holds in every state it reaches (lemmas \<open>Run_registered_open\<close> and
  \<open>handleMessage_registered_open\<close> below).
\<close>

definition registered_open :: "Hub \<Rightarrow> bool" where
  "registered_open h =
     (distinct (clients h) \<and> list_all (\<lambda>c. \<not> closed (send (store h c))) (clients h))"

text \<open>
  Two states with the same client set in which every queue is closed in the one iff
  it is closed in the other.
\<close>

definition same_closed :: "Hub \<Rightarrow> Hub \<Rightarrow> bool" where
  "same_closed h h' =
     (clients h' = clients h \<and> (\<forall>c. closed (send (store h' c)) = closed (send (store h c))))"

text \<open>
  The three operations of the room registry, and a run of them. \<^verbatim>\<open>LeaveAll\<close>
  is \<^verbatim>\<open>leaveAllVoiceRooms\<close> whole, with the events it sends.
\<close>

datatype registry_op = Join string cid | Leave string cid | LeaveAll cid

fun registry_step :: "registry_op \<Rightarrow> Hub \<Rightarrow> fault + Hub" where
  "registry_step (Join chID c) h = Inr (snd (joinVoiceRoom chID c h))"
| "registry_step (Leave chID c) h = Inr (snd (leaveVoiceRoom chID c h))"
| "registry_step (LeaveAll c) h = leaveAllVoiceRooms c h"

fun registry_run :: "registry_op list \<Rightarrow> Hub \<Rightarrow> fault + Hub" where
  "registry_run [] h = Inr h"
| "registry_run (op # ops) h = bindR (registry_step op h) (registry_run ops)"



text \<open>
  A byte that the encoder of a raw message neither drops nor rewrites wherever it
  stands: not white space, not \<^verbatim>\<open><\<close>, \<^verbatim>\<open>>\<close> or \<^verbatim>\<open>&\<close>, and not
  \<^verbatim>\<open>0xE2\<close>, the first byte of U+2028 and U+2029.
\<close>

definition plain_byte :: "char \<Rightarrow> bool" where
  "plain_byte c =
     (\<not> isSpace c \<and> c \<noteq> CHR ''<'' \<and> c \<noteq> CHR ''>'' \<and> c \<noteq> CHR ''&'' \<and> c \<noteq> CHR 0xE2)"

text \<open>
  The members of an event hold no raw message.
\<close>

definition no_raw :: "(string \<times> jvalue) list \<Rightarrow> bool" where
  "no_raw ms = list_all (\<lambda>(k, v). case v of JRaw m \<Rightarrow> False | _ \<Rightarrow> True) ms"

text \<open>
  No room has the empty channel id. The join case returns before \<^verbatim>\<open>joinVoiceRoom\<close>
  when \<^verbatim>\<open>channel_id\<close> is empty, and no other code adds a room, so this holds in
  every state the hub reaches (lemmas \<open>NewHub_no_blank_room\<close>, \<open>Run_no_blank_room\<close>
  and \<open>handleMessage_no_blank_room\<close> below).
\<close>

definition no_blank_room :: "Hub \<Rightarrow> bool" where
  "no_blank_room h = (map_of (voiceRooms h) '''' = None)"



section \<open>Example states and frames\<close>

definition mkClient :: "string \<Rightarrow> string \<Rightarrow> wire list \<Rightarrow> Client" where
  "mkClient uid chID queue = \<lparr>userID = uid, channelID = chID, send = \<lparr>buf = queue, closed = False\<rparr>\<rparr>"

text \<open>
  Two registered connections: 1 views channel A, 2 views channel B.
\<close>

definition two_viewers :: Hub where
  "two_viewers =
     \<lparr>clients = [1, 2], broadcast = [], voiceRooms = [],
      store = (\<lambda>c. if c = 1 then mkClient ''U1'' ''A'' [] else mkClient ''U2'' ''B'' [])\<rparr>"

definition filler :: wire where
  "filler = Marshal \<lparr>Type = ''message.new'', Data = []\<rparr>"

text \<open>
  Three registered connections and one pending broadcast; the queue of connection 3
  holds 256 messages.
\<close>

definition one_stalled :: Hub where
  "one_stalled =
     \<lparr>clients = [1, 2, 3], broadcast = [Marshal (voice_joined ''general-voice'' ''U1'')],
      voiceRooms = [],
      store = (\<lambda>c. if c = 1 then mkClient ''U1'' ''A'' []
                   else if c = 2 then mkClient ''U2'' ''B'' [filler]
                   else mkClient ''U3'' ''A'' (replicate 256 filler))\<rparr>"

text \<open>
  Three registered connections that have not subscribed to a channel; no room.
\<close>

definition fresh_hub :: Hub where
  "fresh_hub =
     \<lparr>clients = [1, 2, 3], broadcast = [], voiceRooms = [],
      store = (\<lambda>c. if c = 1 then mkClient ''U1'' '''' []
                   else if c = 2 then mkClient ''U2'' '''' []
                   else mkClient ''U3'' '''' [])\<rparr>"

text \<open>
  Connection 1 is alone in room R1 and shares room R2 with connection 2.
\<close>

definition two_rooms :: Hub where
  "two_rooms =
     \<lparr>clients = [1, 2], broadcast = [],
      voiceRooms = [(''R1'', [1]), (''R2'', [1, 2])],
      store = (\<lambda>c. if c = 1 then mkClient ''U1'' '''' [] else mkClient ''U2'' '''' [])\<rparr>"

text \<open>
  Connection 1 is the only member of the room.
\<close>

definition solo_room :: Hub where
  "solo_room =
     \<lparr>clients = [1, 2], broadcast = [],
      voiceRooms = [(''general-voice'', [1])],
      store = (\<lambda>c. if c = 1 then mkClient ''U1'' '''' [] else mkClient ''U2'' '''' [])\<rparr>"

text \<open>
  Connections 1 and 2 are in the room, connection 3 is registered and in no room. In
  \<open>relay_full\<close> the queue of connection 2 holds 256 messages.
\<close>

definition call_room :: Hub where
  "call_room =
     \<lparr>clients = [1, 2, 3], broadcast = [],
      voiceRooms = [(''general-voice'', [1, 2])],
      store = (\<lambda>c. if c = 1 then mkClient ''U1'' '''' []
                   else if c = 2 then mkClient ''U2'' '''' []
                   else mkClient ''U3'' '''' [])\<rparr>"

definition relay_full :: Hub where
  "relay_full =
     \<lparr>clients = [1, 2], broadcast = [],
      voiceRooms = [(''general-voice'', [1, 2])],
      store = (\<lambda>c. if c = 1 then mkClient ''U1'' '''' []
                   else mkClient ''U2'' '''' (replicate 256 filler))\<rparr>"

definition join_frame :: "string \<Rightarrow> rawClientMessage" where
  "join_frame chID =
     \<lparr>msgType = ''voice.join'',
      msgData = Some \<lparr>channel_id = chID, target_user_id = '''', payload = '''',
                      cam_enabled = False, screen_sharing = False\<rparr>\<rparr>"

definition offer_frame :: "string \<Rightarrow> string \<Rightarrow> rawClientMessage" where
  "offer_frame target bytes =
     \<lparr>msgType = ''voice.offer'',
      msgData = Some \<lparr>channel_id = ''general-voice'', target_user_id = target, payload = bytes,
                      cam_enabled = False, screen_sharing = False\<rparr>\<rparr>"

definition media_frame :: "string \<Rightarrow> rawClientMessage" where
  "media_frame chID =
     \<lparr>msgType = ''voice.media_state'',
      msgData = Some \<lparr>channel_id = chID, target_user_id = '''', payload = '''',
                      cam_enabled = True, screen_sharing = False\<rparr>\<rparr>"



text \<open>
  The state after connection 1 has joined the room from \<open>fresh_hub\<close>.
\<close>

definition first_joined :: Hub where
  "first_joined =
     (case handleMessage 1 (join_frame ''general-voice'') fresh_hub of
        Inr h \<Rightarrow> h | Inl e \<Rightarrow> fresh_hub)"

text \<open>
  Two payloads that spell the same JSON object, the second with white space between
  its tokens; \<open>dq\<close> is the double quote.
\<close>

definition dq :: char where
  "dq = CHR 0x22"

definition sdp_compact :: string where
  "sdp_compact = ''{'' @ [dq] @ ''sdp'' @ [dq] @ '':'' @ [dq] @ ''v=0'' @ [dq] @ ''}''"

definition sdp_spaced :: string where
  "sdp_spaced = ''{ '' @ [dq] @ ''sdp'' @ [dq] @ '': '' @ [dq] @ ''v=0'' @ [dq] @ '' }''"

text \<open>
  The offer of user U1 as it is queued for the target, and \<open>call_room\<close> with that
  offer on the queue of connection 2.
\<close>

definition relayed_offer :: "string \<Rightarrow> wire" where
  "relayed_offer bytes =
     Marshal \<lparr>Type = ''voice.offer'',
              Data = [(''channel_id'', JString ''general-voice''), (''from_user_id'', JString ''U1''),
                      (''payload'', JRaw bytes)]\<rparr>"

definition call_relayed :: Hub where
  "call_relayed =
     \<lparr>clients = [1, 2, 3], broadcast = [],
      voiceRooms = [(''general-voice'', [1, 2])],
      store = (\<lambda>c. if c = 1 then mkClient ''U1'' '''' []
                   else if c = 2 then mkClient ''U2'' '''' [relayed_offer sdp_compact]
                   else mkClient ''U3'' '''' [])\<rparr>"






section \<open>The encoder on raw messages\<close>

text \<open>
  The scanner returns \<open>scanSkipSpace\<close> on white space only, and \<open>scanEnd\<close> on
  another byte only with the error set. So a raw message without white space and
  without the bytes that are escaped comes out of the encoder as it went in, if it
  comes out at all; a nil message comes out as \<^verbatim>\<open>null\<close>; and an event without
  raw members comes out as it is.
\<close>

lemmas scan_defs = compact_def newScanner_def scan_step_def scan_eof_def
  stateBeginValue_def stateBeginValueOrEmpty_def stateBeginString_def stateBeginStringOrEmpty_def
  stateEndValue_def stateEndTop_def stateInString_def stateInStringEsc_def stateHex_def
  state0_def state1_def stateNeg_def stateDot_def stateDot0_def stateE_def stateESign_def stateE0_def
  stateLit_def goto_def scan_error_def pushParseState_def popParseState_def isSpace_def isDigit_def
  isHex_def htmlEscape_def Let_def encodeRaw_def RawMessage_MarshalJSON_def

lemma stateEndTop_code:
  "stateEndTop s c = (v, s') \<Longrightarrow>
     v = scanEnd \<and> (\<not> isSpace c \<longrightarrow> err s' \<and> step s' = StError)"
  by (auto simp: stateEndTop_def split: if_splits)

lemma stateEndValue_code:
  "stateEndValue s c = (v, s') \<Longrightarrow>
     (v = scanSkipSpace \<longrightarrow> isSpace c) \<and>
     (v = scanEnd \<longrightarrow> \<not> isSpace c \<longrightarrow> err s' \<and> step s' = StError)"
  by (auto simp: stateEndValue_def stateEndTop_def scan_error_def goto_def
      split: list.splits parseState.splits if_splits)

lemma stateBeginValue_code:
  "stateBeginValue s c = (v, s') \<Longrightarrow> (v = scanSkipSpace \<longrightarrow> isSpace c) \<and> v \<noteq> scanEnd"
  by (auto simp: stateBeginValue_def pushParseState_def scan_error_def goto_def Let_def
      split: if_splits)

lemma scan_step_code:
  "scan_step s c = (v, s') \<Longrightarrow>
     (v = scanSkipSpace \<longrightarrow> isSpace c) \<and>
     (v = scanEnd \<longrightarrow> \<not> isSpace c \<longrightarrow> err s' \<and> step s' = StError)"
proof (cases "step s")
  case BeginValueOrEmpty
  assume "scan_step s c = (v, s')"
  with BeginValueOrEmpty show ?thesis
    using stateEndValue_code[of s c v s'] stateBeginValue_code[of s c v s']
    by (auto simp: scan_step_def stateBeginValueOrEmpty_def split: if_splits)
next
  case BeginValue
  assume "scan_step s c = (v, s')"
  with BeginValue show ?thesis
    using stateBeginValue_code[of s c v s'] by (auto simp: scan_step_def)
next
  case BeginStringOrEmpty
  assume "scan_step s c = (v, s')"
  with BeginStringOrEmpty show ?thesis
    using stateEndValue_code[of "s\<lparr>parseStack := parseObjectValue # tl (parseStack s)\<rparr>" c v s']
    by (auto simp: scan_step_def stateBeginStringOrEmpty_def stateBeginString_def goto_def
        scan_error_def split: if_splits)
next
  case EndValue
  assume "scan_step s c = (v, s')"
  with EndValue show ?thesis
    using stateEndValue_code[of s c v s'] by (auto simp: scan_step_def)
next
  case EndTop
  assume "scan_step s c = (v, s')"
  with EndTop show ?thesis
    using stateEndTop_code[of s c v s'] by (auto simp: scan_step_def)
next
  case St1
  assume "scan_step s c = (v, s')"
  with St1 show ?thesis
    using stateEndValue_code[of s c v s']
    by (auto simp: scan_step_def state1_def state0_def goto_def split: if_splits)
next
  case St0
  assume "scan_step s c = (v, s')"
  with St0 show ?thesis
    using stateEndValue_code[of s c v s']
    by (auto simp: scan_step_def state0_def goto_def split: if_splits)
next
  case Dot0
  assume "scan_step s c = (v, s')"
  with Dot0 show ?thesis
    using stateEndValue_code[of s c v s']
    by (auto simp: scan_step_def stateDot0_def goto_def split: if_splits)
next
  case E0
  assume "scan_step s c = (v, s')"
  with E0 show ?thesis
    using stateEndValue_code[of s c v s']
    by (auto simp: scan_step_def stateE0_def goto_def split: if_splits)
qed (auto simp: scan_step_def stateBeginString_def stateInString_def stateInStringEsc_def
      stateHex_def stateNeg_def stateDot_def stateE_def stateESign_def stateLit_def goto_def
      scan_error_def split: if_splits)

lemma compact_loop_err:
  "err s \<Longrightarrow> step s = StError \<Longrightarrow> compact_loop s k src = None"
  by (cases src) (simp_all add: scan_eof_def scan_step_def)

lemma compact_loop_plain:
  "\<forall>c\<in>set src. plain_byte c \<Longrightarrow> compact_loop s 0 src = Some out \<Longrightarrow> out = src"
proof (induction src arbitrary: s out)
  case Nil
  then show ?case by (simp split: if_splits)
next
  case (Cons c cs)
  obtain v s' where st: "scan_step s c = (v, s')" by (cases "scan_step s c")
  from Cons.prems(1) have pc: "\<not> isSpace c" "c \<noteq> CHR ''<''" "c \<noteq> CHR ''>''" "c \<noteq> CHR ''&''"
    "c \<noteq> CHR 0xE2"
    by (simp_all add: plain_byte_def)
  from Cons.prems(2) st pc obtain out' where
    ne: "v \<noteq> scanError" and rec: "compact_loop s' 0 cs = Some out'" and
    out: "out = (if v = scanSkipSpace \<or> v = scanEnd then [] else [c]) @ out'"
    by (auto simp: Let_def split: if_splits option.splits)
  from scan_step_code[OF st] pc(1) have nsk: "v \<noteq> scanSkipSpace" by blast
  have nend: "v \<noteq> scanEnd"
  proof
    assume "v = scanEnd"
    with scan_step_code[OF st] pc(1) have "err s'" "step s' = StError" by blast+
    from compact_loop_err[OF this] rec show False by simp
  qed
  from Cons.IH[OF _ rec] Cons.prems(1) have "out' = cs" by simp
  with out nsk nend show ?case by simp
qed

lemma encodeRaw_plain:
  "m \<noteq> [] \<Longrightarrow> \<forall>c\<in>set m. plain_byte c \<Longrightarrow> encodeRaw m = Some out \<Longrightarrow> out = m"
  using compact_loop_plain[of m newScanner out]
  by (simp add: encodeRaw_def RawMessage_MarshalJSON_def compact_def)

lemma encodeRaw_nil: "encodeRaw [] = Some ''null''"
  by (simp add: scan_defs)

lemma encode_members_plain: "no_raw ms \<Longrightarrow> encode_members ms = Some ms"
proof (induction ms)
  case Nil
  then show ?case by simp
next
  case (Cons a ms)
  obtain k v where a: "a = (k, v)" by (cases a)
  with Cons show ?case by (cases v) (simp_all add: no_raw_def)
qed

lemma json_Marshal_plain: "no_raw (Data event) \<Longrightarrow> json_Marshal event = Some (Marshal event)"
  by (simp add: json_Marshal_def encode_members_plain)

lemma hub_events_plain:
  "no_raw (Data (typing_event uid chID))" "no_raw (Data (voice_joined chID uid))"
  "no_raw (Data (voice_left chID uid))" "no_raw (Data (room_state chID existing))"
  "no_raw (Data (media_state_event uid d))"
  by (simp_all add: no_raw_def typing_event_def voice_joined_def voice_left_def room_state_def
      media_state_event_def)

lemma json_Marshal_relay:
  "json_Marshal (relay_event ty uid d) =
     map_option (\<lambda>bytes. Marshal \<lparr>Type = ty,
                   Data = [(''channel_id'', JString (channel_id d)), (''from_user_id'', JString uid),
                           (''payload'', JRaw bytes)]\<rparr>)
       (encodeRaw (payload d))"
  by (simp add: json_Marshal_def relay_event_def split: option.splits)

lemma encodeRaw_spaces_example: "encodeRaw ''[1, 2]'' = Some ''[1,2]''"
  by (simp add: scan_defs)

lemma encodeRaw_escape_example: "encodeRaw (dq # ''a<b'' @ [dq]) = Some (dq # ''a'' @ [CHR 0x5C] @ ''u003cb'' @ [dq])"
  by (simp add: dq_def scan_defs)

lemma encodeRaw_reject_example: "encodeRaw ''sdp'' = None"
  by (simp add: scan_defs)

lemma sdp_encodings:
  "encodeRaw sdp_compact = Some sdp_compact" "encodeRaw sdp_spaced = Some sdp_compact"
  "sdp_spaced \<noteq> sdp_compact"
  by (simp_all add: sdp_compact_def sdp_spaced_def dq_def scan_defs)

lemma sdp_compact_plain: "sdp_compact \<noteq> [] \<and> (\<forall>b\<in>set sdp_compact. plain_byte b)"
  by (simp add: sdp_compact_def dq_def plain_byte_def isSpace_def)

lemma sdp_compact_encodes: "\<exists>bytes. encodeRaw sdp_compact = Some bytes"
  by (simp add: sdp_encodings)

section \<open>The send loop\<close>

lemma trySend_Inr:
  "trySend ch data = Inr (sent, ch') \<Longrightarrow>
     \<not> closed ch \<and> \<not> closed ch' \<and> (sent \<longleftrightarrow> length (buf ch) < chan_cap) \<and>
     ch' = (if sent then ch\<lparr>buf := buf ch @ [data]\<rparr> else ch)"
  by (auto simp: trySend_def split: if_splits)

lemma trySend_open: "\<not> closed ch \<Longrightarrow> \<exists>sent ch'. trySend ch data = Inr (sent, ch')"
  by (auto simp: trySend_def)

lemma send_loop_ids:
  "send_loop want data cs st = Inr (dead, st') \<Longrightarrow>
     userID (st' c) = userID (st c) \<and> channelID (st' c) = channelID (st c)
     \<and> closed (send (st' c)) = closed (send (st c))"
proof (induction cs arbitrary: st dead)
  case Nil
  then show ?case by simp
next
  case (Cons a cs)
  show ?case
  proof (cases "want a (st a)")
    case False
    with Cons show ?thesis by simp
  next
    case True
    with Cons.prems obtain sent ch' dead0 where
      ts: "trySend (send (st a)) data = Inr (sent, ch')" and
      rec: "send_loop want data cs (st(a := (st a)\<lparr>send := ch'\<rparr>)) = Inr (dead0, st')"
      by (auto split: sum.splits prod.splits)
    from Cons.IH[OF rec] trySend_Inr[OF ts] show ?thesis
      by (auto split: if_splits)
  qed
qed

lemma send_loop_unsent:
  assumes "send_loop want data cs st = Inr (dead, st')"
    and "c \<notin> set cs \<or> \<not> want c (st c)" and "send_stable want"
  shows "st' c = st c"
  using assms
proof (induction cs arbitrary: st dead)
  case Nil
  then show ?case by simp
next
  case (Cons a cs)
  show ?case
  proof (cases "want a (st a)")
    case False
    with Cons show ?thesis by auto
  next
    case True
    with Cons.prems obtain sent ch' dead0 where
      ts: "trySend (send (st a)) data = Inr (sent, ch')" and
      rec: "send_loop want data cs (st(a := (st a)\<lparr>send := ch'\<rparr>)) = Inr (dead0, st')"
      by (auto split: sum.splits prod.splits)
    from True Cons.prems(2) have ne: "c \<noteq> a" by auto
    have "c \<notin> set cs \<or> \<not> want c ((st(a := (st a)\<lparr>send := ch'\<rparr>)) c)"
      using Cons.prems(2) ne by auto
    from Cons.IH[OF rec this Cons.prems(3)] ne show ?thesis by simp
  qed
qed

lemma send_loop_distinct:
  assumes "send_loop want data cs st = Inr (dead, st')"
    and "distinct cs" and "send_stable want"
  shows "st' c = (if c \<in> set cs \<and> want c (st c) then offer data (st c) else st c)"
    and "dead = filter (\<lambda>c. want c (st c) \<and> \<not> length (buf (send (st c))) < chan_cap) cs"
  using assms
proof (induction cs arbitrary: st dead)
  case Nil
  { case 1 then show ?case by simp }
  { case 2 then show ?case by simp }
next
  case (Cons a cs)
  { case 1
    show ?case
    proof (cases "want a (st a)")
      case False
      with 1 Cons.IH(1)[of st dead] show ?thesis by auto
    next
      case True
      with 1 obtain sent ch' dead0 where
        ts: "trySend (send (st a)) data = Inr (sent, ch')" and
        rec: "send_loop want data cs (st(a := (st a)\<lparr>send := ch'\<rparr>)) = Inr (dead0, st')"
        by (auto split: sum.splits prod.splits)
      have d: "distinct cs" "a \<notin> set cs" using 1 by auto
      have upd: "(st a)\<lparr>send := ch'\<rparr> = offer data (st a)"
        using trySend_Inr[OF ts] by (auto simp: offer_def)
      from Cons.IH(1)[OF rec d(1) 1(3)] d(2) True upd show ?thesis by auto
    qed }
  { case 2
    show ?case
    proof (cases "want a (st a)")
      case False
      with 2 Cons.IH(2)[of st dead] show ?thesis by auto
    next
      case True
      with 2 obtain sent ch' dead0 where
        ts: "trySend (send (st a)) data = Inr (sent, ch')" and
        rec: "send_loop want data cs (st(a := (st a)\<lparr>send := ch'\<rparr>)) = Inr (dead0, st')" and
        dd: "dead = (if sent then dead0 else a # dead0)"
        by (auto split: sum.splits prod.splits)
      have d: "distinct cs" "a \<notin> set cs" using 2 by auto
      have "dead0 = filter (\<lambda>c. want c ((st(a := (st a)\<lparr>send := ch'\<rparr>)) c)
                \<and> \<not> length (buf (send ((st(a := (st a)\<lparr>send := ch'\<rparr>)) c))) < chan_cap) cs"
        by (rule Cons.IH(2)[OF rec d(1) 2(3)])
      also have "\<dots> = filter (\<lambda>c. want c (st c) \<and> \<not> length (buf (send (st c))) < chan_cap) cs"
        using d(2) by (intro filter_cong) auto
      finally show ?thesis using dd True trySend_Inr[OF ts] by auto
    qed }
qed

lemma send_loop_total:
  assumes "\<forall>c\<in>set cs. want c (st c) \<longrightarrow> \<not> closed (send (st c))" and "send_stable want"
  shows "\<exists>dead st'. send_loop want data cs st = Inr (dead, st')"
  using assms
proof (induction cs arbitrary: st)
  case Nil
  then show ?case by simp
next
  case (Cons a cs)
  show ?case
  proof (cases "want a (st a)")
    case False
    with Cons show ?thesis by auto
  next
    case True
    with Cons.prems have "\<not> closed (send (st a))" by simp
    from trySend_open[OF this] obtain sent ch' where
      ts: "trySend (send (st a)) data = Inr (sent, ch')" by blast
    let ?st = "st(a := (st a)\<lparr>send := ch'\<rparr>)"
    have "\<forall>c\<in>set cs. want c (?st c) \<longrightarrow> \<not> closed (send (?st c))"
      using Cons.prems trySend_Inr[OF ts] by (auto simp: send_stable_def)
    from Cons.IH[OF this Cons.prems(2)] obtain dead st' where
      "send_loop want data cs ?st = Inr (dead, st')" by blast
    with True ts show ?thesis by simp
  qed
qed

section \<open>What each operation changes\<close>

lemma send_stable_channel: "send_stable (\<lambda>c cl. channelID cl = B)"
  by (simp add: send_stable_def)

lemma send_stable_user: "send_stable (\<lambda>c cl. userID cl = u)"
  by (simp add: send_stable_def)

lemma send_stable_const: "send_stable (\<lambda>c cl. Q c)"
  by (simp add: send_stable_def)

lemma filter_single:
  "distinct xs \<Longrightarrow> x \<in> set xs \<Longrightarrow> (\<forall>y\<in>set xs. P y \<longleftrightarrow> y = x) \<Longrightarrow> filter P xs = [x]"
proof (induction xs)
  case Nil
  then show ?case by simp
next
  case (Cons a xs)
  show ?case
  proof (cases "a = x")
    case True
    with Cons.prems have "\<forall>y\<in>set xs. \<not> P y" by auto
    then have "filter P xs = []" by (simp add: filter_empty_conv)
    with True Cons.prems show ?thesis by simp
  next
    case False
    with Cons show ?thesis by auto
  qed
qed

lemma BroadcastToChannel_Inr:
  assumes "BroadcastToChannel B event h = Inr h'"
  obtains dead st' where
    "send_loop (\<lambda>c cl. channelID cl = B) (Marshal event) (clients h) (store h) = Inr (dead, st')"
    "h' = h\<lparr>store := st'\<rparr>"
  using assms by (auto simp: BroadcastToChannel_def split: sum.splits prod.splits)

lemma Broadcast_Inr:
  "Broadcast event h = Inr h' \<Longrightarrow>
     h' = h\<lparr>broadcast := broadcast h @ [Marshal event]\<rparr> \<and> length (broadcast h) < chan_cap"
  by (auto simp: Broadcast_def split: if_splits)

lemma BroadcastToVoiceRoom_Inr:
  assumes "BroadcastToVoiceRoom chID event exclude h = Inr h'"
  obtains dead st' where
    "send_loop (\<lambda>c cl. Some c \<noteq> exclude) (Marshal event) (room_of (voiceRooms h) chID) (store h)
       = Inr (dead, st')"
    "h' = h\<lparr>store := st'\<rparr>"
  using assms
  by (auto simp: BroadcastToVoiceRoom_def room_of_def split: option.splits sum.splits prod.splits)

lemma BroadcastToVoiceRoom_frame:
  assumes "BroadcastToVoiceRoom chID event exclude h = Inr h'"
  shows "clients h' = clients h \<and> voiceRooms h' = voiceRooms h \<and> broadcast h' = broadcast h"
  using assms by (elim BroadcastToVoiceRoom_Inr) simp

lemma BroadcastToVoiceRoom_store:
  assumes "BroadcastToVoiceRoom chID event exclude h = Inr h'"
  shows "Some c = exclude \<or> c \<notin> set (room_of (voiceRooms h) chID) \<Longrightarrow> store h' c = store h c"
    and "userID (store h' c) = userID (store h c)"
    and "channelID (store h' c) = channelID (store h c)"
    and "distinct (room_of (voiceRooms h) chID) \<Longrightarrow> c \<in> set (room_of (voiceRooms h) chID) \<Longrightarrow>
           Some c \<noteq> exclude \<Longrightarrow> store h' c = offer (Marshal event) (store h c)"
proof -
  from assms obtain dead st' where
    loop: "send_loop (\<lambda>c cl. Some c \<noteq> exclude) (Marshal event)
             (room_of (voiceRooms h) chID) (store h) = Inr (dead, st')"
    and h': "h' = h\<lparr>store := st'\<rparr>"
    by (rule BroadcastToVoiceRoom_Inr)
  show "Some c = exclude \<or> c \<notin> set (room_of (voiceRooms h) chID) \<Longrightarrow> store h' c = store h c"
    using send_loop_unsent[OF loop _ send_stable_const, of c] by (auto simp: h')
  show "userID (store h' c) = userID (store h c)"
    and "channelID (store h' c) = channelID (store h c)"
    using send_loop_ids[OF loop, of c] by (simp_all add: h')
  show "distinct (room_of (voiceRooms h) chID) \<Longrightarrow> c \<in> set (room_of (voiceRooms h) chID) \<Longrightarrow>
           Some c \<noteq> exclude \<Longrightarrow> store h' c = offer (Marshal event) (store h c)"
    using send_loop_distinct(1)[OF loop _ send_stable_const, of c] by (simp add: h')
qed

lemma BroadcastToVoiceRoom_total:
  assumes "\<forall>m\<in>set (room_of (voiceRooms h) chID). Some m \<noteq> exclude \<longrightarrow> \<not> closed (send (store h m))"
  shows "\<exists>h'. BroadcastToVoiceRoom chID event exclude h = Inr h'"
proof (cases "map_of (voiceRooms h) chID")
  case None
  then show ?thesis by (simp add: BroadcastToVoiceRoom_def)
next
  case (Some room)
  with assms have "\<forall>m\<in>set room. Some m \<noteq> exclude \<longrightarrow> \<not> closed (send (store h m))"
    by (simp add: room_of_def)
  from send_loop_total[OF this send_stable_const, of "Marshal event"] Some
  show ?thesis by (auto simp: BroadcastToVoiceRoom_def)
qed

lemma SendToUser_None: "json_Marshal event = None \<Longrightarrow> SendToUser target event h = Inr h"
  by (simp add: SendToUser_def)

lemma SendToUser_Inr:
  assumes "SendToUser target event h = Inr h'" and "json_Marshal event = Some data"
  obtains dead st' where
    "send_loop (\<lambda>c cl. userID cl = target) data (clients h) (store h) = Inr (dead, st')"
    "h' = h\<lparr>store := st'\<rparr>"
  using assms by (auto simp: SendToUser_def split: sum.splits prod.splits)

lemma SendToUser_store:
  assumes "SendToUser target event h = Inr h'" and "json_Marshal event = Some data"
  shows "c \<notin> set (clients h) \<or> userID (store h c) \<noteq> target \<Longrightarrow> store h' c = store h c"
    and "distinct (clients h) \<Longrightarrow> c \<in> set (clients h) \<Longrightarrow> userID (store h c) = target \<Longrightarrow>
           store h' c = offer data (store h c)"
    and "clients h' = clients h" and "voiceRooms h' = voiceRooms h" and "broadcast h' = broadcast h"
proof -
  from assms obtain dead st' where
    loop: "send_loop (\<lambda>c cl. userID cl = target) data (clients h) (store h) = Inr (dead, st')"
    and h': "h' = h\<lparr>store := st'\<rparr>"
    by (rule SendToUser_Inr)
  show "c \<notin> set (clients h) \<or> userID (store h c) \<noteq> target \<Longrightarrow> store h' c = store h c"
    using send_loop_unsent[OF loop _ send_stable_user, of c] by (auto simp: h')
  show "distinct (clients h) \<Longrightarrow> c \<in> set (clients h) \<Longrightarrow> userID (store h c) = target \<Longrightarrow>
           store h' c = offer data (store h c)"
    using send_loop_distinct(1)[OF loop _ send_stable_user, of c] by (simp add: h')
  show "clients h' = clients h" and "voiceRooms h' = voiceRooms h" and "broadcast h' = broadcast h"
    by (simp_all add: h')
qed

lemma sendEvent_Inr:
  "sendEvent c event h = Inr h' \<Longrightarrow>
     h' = h\<lparr>store := (store h)(c := offer (Marshal event) (store h c))\<rparr>
     \<and> \<not> closed (send (store h c))"
  by (auto simp: sendEvent_def offer_def split: sum.splits prod.splits dest!: trySend_Inr)

subsection \<open>The room registry\<close>

lemma no_empty_room_iff: "no_empty_room rooms \<longleftrightarrow> (\<forall>(chID, room)\<in>set rooms. room \<noteq> [])"
  by (simp add: no_empty_room_def list_all_iff)

lemma set_update_subset: "set (AList.update k v al) \<subseteq> insert (k, v) (set al)"
  by (induction al) auto

lemma set_delete_subset: "set (AList.delete k al) \<subseteq> set al"
  by (induction al) auto

lemma no_empty_update:
  "no_empty_room rooms \<Longrightarrow> room \<noteq> [] \<Longrightarrow> no_empty_room (AList.update chID room rooms)"
  using set_update_subset[of chID room rooms] by (auto simp: no_empty_room_iff)

lemma no_empty_delete: "no_empty_room rooms \<Longrightarrow> no_empty_room (AList.delete chID rooms)"
  using set_delete_subset[of chID rooms] by (auto simp: no_empty_room_iff)

lemma room_of_update [simp]: "room_of (AList.update chID room rooms) chID = room"
  by (simp add: room_of_def update_conv')

lemma room_of_absent: "map_of rooms chID = None \<Longrightarrow> room_of rooms chID = []"
  by (simp add: room_of_def)

lemma room_of_member: "c \<in> set (room_of rooms chID) \<Longrightarrow> map_of rooms chID = Some (room_of rooms chID)"
  by (cases "map_of rooms chID") (simp_all add: room_of_def)

lemma joinVoiceRoom_eq:
  "joinVoiceRoom chID c h =
     (map (\<lambda>c'. userID (store h c')) (room_of (voiceRooms h) chID),
      h\<lparr>voiceRooms := AList.update chID
           (if c \<in> set (room_of (voiceRooms h) chID) then room_of (voiceRooms h) chID
            else room_of (voiceRooms h) chID @ [c]) (voiceRooms h)\<rparr>)"
  by (simp add: joinVoiceRoom_def Let_def room_of_absent)

lemma joinVoiceRoom_no_empty:
  "no_empty_room (voiceRooms h) \<Longrightarrow> no_empty_room (voiceRooms (snd (joinVoiceRoom chID c h)))"
  by (auto simp: joinVoiceRoom_eq intro!: no_empty_update)

lemma leaveVoiceRoom_no_empty:
  "no_empty_room (voiceRooms h) \<Longrightarrow> no_empty_room (voiceRooms (snd (leaveVoiceRoom chID c h)))"
  by (auto simp: leaveVoiceRoom_def Let_def intro: no_empty_update no_empty_delete
      split: option.splits)

lemma leaveAll_rooms_no_empty:
  "no_empty_room rooms \<Longrightarrow> no_empty_room (snd (leaveAll_rooms c rooms))"
  by (induction rooms) (auto simp: no_empty_room_def Let_def split: prod.splits)

lemma leaveAll_rooms_gone: "in_no_room c (snd (leaveAll_rooms c rooms))"
  by (induction rooms) (auto simp: in_no_room_def Let_def split: prod.splits)

lemma leaveAll_rooms_absent: "in_no_room c rooms \<Longrightarrow> leaveAll_rooms c rooms = ([], rooms)"
  by (induction rooms) (auto simp: in_no_room_def)

lemma leaveAll_events_frame:
  "leaveAll_events c affected h = Inr h' \<Longrightarrow>
     clients h' = clients h \<and> voiceRooms h' = voiceRooms h"
proof (induction affected arbitrary: h)
  case Nil
  then show ?case by simp
next
  case (Cons chID rest)
  let ?evt = "voice_left chID (userID (store h c))"
  from Cons.prems obtain h1 h2 where
    s1: "BroadcastToVoiceRoom chID ?evt None h = Inr h1" and
    s2: "Broadcast ?evt h1 = Inr h2" and
    s3: "leaveAll_events c rest h2 = Inr h'"
    by (auto simp: bindR_def Let_def split: sum.splits)
  from BroadcastToVoiceRoom_frame[OF s1] Broadcast_Inr[OF s2] Cons.IH[OF s3]
  show ?case by simp
qed

lemma leaveAllVoiceRooms_rooms:
  "leaveAllVoiceRooms c h = Inr h' \<Longrightarrow>
     voiceRooms h' = snd (leaveAll_rooms c (voiceRooms h)) \<and> clients h' = clients h"
  by (auto simp: leaveAllVoiceRooms_def split: prod.splits dest: leaveAll_events_frame)

lemma leaveAllVoiceRooms_absent:
  "in_no_room c (voiceRooms h) \<Longrightarrow> leaveAllVoiceRooms c h = Inr h"
  by (simp add: leaveAllVoiceRooms_def leaveAll_rooms_absent)

lemma leaveAllVoiceRooms_twice:
  assumes "leaveAllVoiceRooms c h = Inr h1"
  shows "leaveAllVoiceRooms c h1 = Inr h1" and "in_no_room c (voiceRooms h1)"
proof -
  from leaveAllVoiceRooms_rooms[OF assms] leaveAll_rooms_gone[of c "voiceRooms h"]
  show "in_no_room c (voiceRooms h1)" by simp
  then show "leaveAllVoiceRooms c h1 = Inr h1" by (rule leaveAllVoiceRooms_absent)
qed

lemma Run_unregister_Inr:
  assumes "Run_unregister c h = Inr h1"
  obtains hm where "leaveAllVoiceRooms c hm = Inr h1" "c \<notin> set (clients hm)"
  using assms
  by (auto simp: Run_unregister_def bindR_def split: if_splits sum.splits)

lemma registry_step_no_empty:
  "no_empty_room (voiceRooms h) \<Longrightarrow> registry_step op h = Inr h' \<Longrightarrow> no_empty_room (voiceRooms h')"
proof (cases op)
  case (Join chID c)
  assume "no_empty_room (voiceRooms h)" "registry_step op h = Inr h'"
  with Join show ?thesis using joinVoiceRoom_no_empty[of h chID c] by auto
next
  case (Leave chID c)
  assume "no_empty_room (voiceRooms h)" "registry_step op h = Inr h'"
  with Leave show ?thesis using leaveVoiceRoom_no_empty[of h chID c] by auto
next
  case (LeaveAll c)
  assume "no_empty_room (voiceRooms h)" "registry_step op h = Inr h'"
  with LeaveAll show ?thesis
    using leaveAll_rooms_no_empty[of "voiceRooms h" c] leaveAllVoiceRooms_rooms[of c h h'] by auto
qed

lemma registry_run_no_empty:
  "no_empty_room (voiceRooms h) \<Longrightarrow> registry_run ops h = Inr h' \<Longrightarrow> no_empty_room (voiceRooms h')"
proof (induction ops arbitrary: h)
  case Nil
  then show ?case by simp
next
  case (Cons op ops)
  from Cons.prems(2) obtain h1 where
    s: "registry_step op h = Inr h1" and r: "registry_run ops h1 = Inr h'"
    by (auto simp: bindR_def split: sum.splits)
  from registry_step_no_empty[OF Cons.prems(1) s] Cons.IH r show ?case by blast
qed

lemma snapshot_no_empty:
  "no_empty_room (voiceRooms h) \<Longrightarrow> \<forall>(chID, uids)\<in>set (GetVoiceRoomSnapshot h). uids \<noteq> []"
  by (auto simp: GetVoiceRoomSnapshot_def no_empty_room_iff)

lemma found_loop_eq:
  "found_loop st userA userB room (foundA, foundB) =
     (foundA \<or> (\<exists>c\<in>set room. userID (st c) = userA),
      foundB \<or> (\<exists>c\<in>set room. userID (st c) = userB))"
  by (induction room arbitrary: foundA foundB) auto

lemma AreInSameVoiceRoom_iff:
  "AreInSameVoiceRoom chID userA userB h \<longleftrightarrow>
     (\<exists>c\<in>set (room_of (voiceRooms h) chID). userID (store h c) = userA) \<and>
     (\<exists>c\<in>set (room_of (voiceRooms h) chID). userID (store h c) = userB)"
  by (auto simp: AreInSameVoiceRoom_def room_of_def found_loop_eq split: option.splits)

subsection \<open>The cases of the message handler\<close>

lemma handleMessage_join:
  assumes "msgType evt = ''voice.join''" and "msgData evt = Some d" and "channel_id d \<noteq> ''''"
  shows "handleMessage c evt h =
     (case joinVoiceRoom (channel_id d) c h of (existing, h1) \<Rightarrow>
        bindR (sendEvent c (room_state (channel_id d) existing) h1) (\<lambda>h2.
        bindR (BroadcastToVoiceRoom (channel_id d)
                 (voice_joined (channel_id d) (userID (store h2 c))) (Some c) h2) (\<lambda>h3.
        Broadcast (voice_joined (channel_id d) (userID (store h3 c))) h3)))"
  using assms by (simp add: handleMessage_def)

lemma handleMessage_join_effect:
  assumes "msgType evt = ''voice.join''" and "msgData evt = Some d" and "channel_id d \<noteq> ''''"
    and "handleMessage c evt h = Inr h'"
  shows "store h' c =
           offer (Marshal (room_state (channel_id d) (fst (joinVoiceRoom (channel_id d) c h))))
             (store h c)"
    and "voiceRooms h' = voiceRooms (snd (joinVoiceRoom (channel_id d) c h))"
proof -
  obtain existing h1 where j: "joinVoiceRoom (channel_id d) c h = (existing, h1)"
    by (cases "joinVoiceRoom (channel_id d) c h")
  have h1: "store h1 = store h" using j by (auto simp: joinVoiceRoom_eq)
  from assms j obtain h2 h3 where
    s1: "sendEvent c (room_state (channel_id d) existing) h1 = Inr h2" and
    s2: "BroadcastToVoiceRoom (channel_id d)
           (voice_joined (channel_id d) (userID (store h2 c))) (Some c) h2 = Inr h3" and
    s3: "Broadcast (voice_joined (channel_id d) (userID (store h3 c))) h3 = Inr h'"
    by (auto simp: handleMessage_join bindR_def split: sum.splits)
  from sendEvent_Inr[OF s1] have
    h2: "h2 = h1\<lparr>store := (store h1)(c := offer (Marshal (room_state (channel_id d) existing)) (store h1 c))\<rparr>"
    by simp
  from BroadcastToVoiceRoom_store(1)[OF s2, of c] have h3: "store h3 c = store h2 c" by simp
  from Broadcast_Inr[OF s3] have h4: "store h' = store h3" "voiceRooms h' = voiceRooms h3" by simp_all
  show "store h' c =
           offer (Marshal (room_state (channel_id d) (fst (joinVoiceRoom (channel_id d) c h))))
             (store h c)"
    using h1 h2 h3 h4 j by simp
  show "voiceRooms h' = voiceRooms (snd (joinVoiceRoom (channel_id d) c h))"
    using h2 h4 BroadcastToVoiceRoom_frame[OF s2] j by simp
qed

lemma handleMessage_relay:
  assumes "msgType evt = ''voice.offer'' \<or> msgType evt = ''voice.answer'' \<or> msgType evt = ''voice.ice''"
    and "msgData evt = Some d"
  shows "handleMessage c evt h =
     (if target_user_id d = '''' then Inr h
      else if \<not> AreInSameVoiceRoom (channel_id d) (userID (store h c)) (target_user_id d) h
      then Inr h
      else SendToUser (target_user_id d) (relay_event (msgType evt) (userID (store h c)) d) h)"
  using assms by (auto simp: handleMessage_def)

lemma handleMessage_media_state:
  assumes "msgType evt = ''voice.media_state''" and "msgData evt = Some d" and "channel_id d \<noteq> ''''"
  shows "handleMessage c evt h =
     BroadcastToVoiceRoom (channel_id d) (media_state_event (userID (store h c)) d) (Some c) h"
  using assms by (simp add: handleMessage_def)

subsection \<open>Runs on the example states\<close>

lemmas eval_defs =
  handleMessage_def joinVoiceRoom_def leaveVoiceRoom_def leaveAllVoiceRooms_def room_of_def
  mkClient_def Let_def bindR_def sendEvent_def trySend_def closeChan_def chan_cap_def
  BroadcastToVoiceRoom_def BroadcastToChannel_def SendToUser_def Broadcast_def
  AreInSameVoiceRoom_def Run_unregister_def GetVoiceRoomSnapshot_def

lemma fresh_run:
  "\<exists>h2. registry_run [Join ''r1'' 1, Join ''r1'' 2, Join ''r2'' 1, Leave ''r1'' 1, LeaveAll 1]
           fresh_hub = Inr h2 \<and> GetVoiceRoomSnapshot h2 = [(''r1'', [''U2''])]"
  by (simp add: fresh_hub_def mkClient_def bindR_def joinVoiceRoom_def leaveVoiceRoom_def
      leaveAllVoiceRooms_def room_of_def Let_def BroadcastToVoiceRoom_def Broadcast_def
      chan_cap_def GetVoiceRoomSnapshot_def voice_left_def)

lemma two_rooms_unregister:
  "\<exists>h1. Run_unregister 1 two_rooms = Inr h1 \<and>
      broadcast h1 = [Marshal (voice_left ''R1'' ''U1''), Marshal (voice_left ''R2'' ''U1'')] \<and>
      buf (send (store h1 2)) = [Marshal (voice_left ''R2'' ''U1'')] \<and>
      voiceRooms h1 = [(''R2'', [2])] \<and> clients h1 = [2] \<and> closed (send (store h1 1))"
  by (simp add: two_rooms_def mkClient_def Run_unregister_def closeChan_def bindR_def
      leaveAllVoiceRooms_def Let_def BroadcastToVoiceRoom_def Broadcast_def trySend_def
      chan_cap_def)

lemma two_rooms_leaveAll: "\<exists>h2. leaveAllVoiceRooms 1 two_rooms = Inr h2"
  by (simp add: two_rooms_def eval_defs)

lemma solo_rejoin:
  "\<exists>h'. handleMessage 1 (join_frame ''general-voice'') solo_room = Inr h' \<and>
      buf (send (store h' 1)) = [Marshal (room_state ''general-voice'' [''U1''])] \<and>
      broadcast h' = [Marshal (voice_joined ''general-voice'' ''U1'')]"
  by (simp add: handleMessage_def join_frame_def solo_room_def joinVoiceRoom_def room_of_def
      mkClient_def Let_def bindR_def sendEvent_def trySend_def chan_cap_def
      BroadcastToVoiceRoom_def Broadcast_def)

lemma first_join_run:
  "handleMessage 1 (join_frame ''general-voice'') fresh_hub = Inr first_joined"
  by (simp add: first_joined_def fresh_hub_def join_frame_def eval_defs)

lemma first_joined_rooms: "voiceRooms first_joined = [(''general-voice'', [1])]"
  by (simp add: first_joined_def fresh_hub_def join_frame_def eval_defs)

lemma second_join_run:
  "\<exists>h'. handleMessage 2 (join_frame ''general-voice'') first_joined = Inr h'"
  by (simp add: first_joined_def fresh_hub_def join_frame_def eval_defs)

subsection \<open>Registered connections stay open\<close>

lemma same_closed_refl [simp]: "same_closed h h"
  by (simp add: same_closed_def)

lemma same_closed_trans: "same_closed h h1 \<Longrightarrow> same_closed h1 h2 \<Longrightarrow> same_closed h h2"
  by (simp add: same_closed_def)

lemma same_closed_open: "registered_open h \<Longrightarrow> same_closed h h' \<Longrightarrow> registered_open h'"
  by (simp add: registered_open_def same_closed_def)

lemma BroadcastToChannel_same: "BroadcastToChannel B event h = Inr h' \<Longrightarrow> same_closed h h'"
  by (erule BroadcastToChannel_Inr) (simp add: same_closed_def send_loop_ids)

lemma SendToUser_same: "SendToUser u event h = Inr h' \<Longrightarrow> same_closed h h'"
proof (cases "json_Marshal event")
  case None
  assume "SendToUser u event h = Inr h'"
  with None show ?thesis by (simp add: SendToUser_def)
next
  case (Some data)
  assume "SendToUser u event h = Inr h'"
  then show ?thesis
    by (rule SendToUser_Inr[OF _ Some]) (simp add: same_closed_def send_loop_ids)
qed

lemma BroadcastToVoiceRoom_same:
  "BroadcastToVoiceRoom chID event exclude h = Inr h' \<Longrightarrow> same_closed h h'"
  by (erule BroadcastToVoiceRoom_Inr) (simp add: same_closed_def send_loop_ids)

lemma Broadcast_same: "Broadcast event h = Inr h' \<Longrightarrow> same_closed h h'"
  by (drule Broadcast_Inr) (simp add: same_closed_def)

lemma sendEvent_same: "sendEvent c event h = Inr h' \<Longrightarrow> same_closed h h'"
  by (drule sendEvent_Inr) (simp add: same_closed_def offer_def)

lemma joinVoiceRoom_same: "same_closed h (snd (joinVoiceRoom chID c h))"
  by (simp add: joinVoiceRoom_eq same_closed_def)

lemma leaveVoiceRoom_same: "same_closed h (snd (leaveVoiceRoom chID c h))"
  by (simp add: leaveVoiceRoom_def same_closed_def Let_def split: option.splits)

lemma leaveAll_events_same: "leaveAll_events c affected h = Inr h' \<Longrightarrow> same_closed h h'"
proof (induction affected arbitrary: h)
  case Nil
  then show ?case by simp
next
  case (Cons chID rest)
  let ?evt = "voice_left chID (userID (store h c))"
  from Cons.prems obtain h1 h2 where
    s1: "BroadcastToVoiceRoom chID ?evt None h = Inr h1" and
    s2: "Broadcast ?evt h1 = Inr h2" and
    s3: "leaveAll_events c rest h2 = Inr h'"
    by (auto simp: bindR_def Let_def split: sum.splits)
  from BroadcastToVoiceRoom_same[OF s1] Broadcast_same[OF s2] Cons.IH[OF s3]
  show ?case by (blast intro: same_closed_trans)
qed

lemma leaveAllVoiceRooms_same: "leaveAllVoiceRooms c h = Inr h' \<Longrightarrow> same_closed h h'"
proof -
  assume a: "leaveAllVoiceRooms c h = Inr h'"
  obtain affected rooms' where l: "leaveAll_rooms c (voiceRooms h) = (affected, rooms')"
    by (cases "leaveAll_rooms c (voiceRooms h)")
  with a have "leaveAll_events c affected (h\<lparr>voiceRooms := rooms'\<rparr>) = Inr h'"
    by (simp add: leaveAllVoiceRooms_def)
  from leaveAll_events_same[OF this] show ?thesis by (simp add: same_closed_def)
qed

lemma handleMessage_same:
  assumes "handleMessage c evt h = Inr h'"
  shows "same_closed h h'"
proof -
  consider (subscribe) "msgType evt = ''subscribe''" | (typing) "msgType evt = ''typing''"
    | (join) "msgType evt = ''voice.join''" | (leave) "msgType evt = ''voice.leave''"
    | (relay) "msgType evt = ''voice.offer'' \<or> msgType evt = ''voice.answer'' \<or> msgType evt = ''voice.ice''"
    | (media) "msgType evt = ''voice.media_state''"
    | (other) "msgType evt \<notin> set [''subscribe'', ''typing'', ''voice.join'', ''voice.leave'',
                 ''voice.offer'', ''voice.answer'', ''voice.ice'', ''voice.media_state'']"
    by auto
  then show ?thesis
  proof cases
    case subscribe
    with assms show ?thesis
      by (auto simp: handleMessage_def SetChannel_def same_closed_def
          split: option.splits if_splits)
  next
    case typing
    with assms show ?thesis
      by (auto simp: handleMessage_def split: option.splits dest: BroadcastToChannel_same)
  next
    case join
    show ?thesis
    proof (cases "msgData evt")
      case None
      with join assms show ?thesis by (simp add: handleMessage_def)
    next
      case (Some d)
      show ?thesis
      proof (cases "channel_id d = ''''")
        case True
        with join Some assms show ?thesis by (simp add: handleMessage_def)
      next
        case False
        obtain existing h1 where j: "joinVoiceRoom (channel_id d) c h = (existing, h1)"
          by (cases "joinVoiceRoom (channel_id d) c h")
        from assms j obtain h2 h3 where
          s1: "sendEvent c (room_state (channel_id d) existing) h1 = Inr h2" and
          s2: "BroadcastToVoiceRoom (channel_id d)
                 (voice_joined (channel_id d) (userID (store h2 c))) (Some c) h2 = Inr h3" and
          s3: "Broadcast (voice_joined (channel_id d) (userID (store h3 c))) h3 = Inr h'"
          by (auto simp: handleMessage_join[OF join Some False] bindR_def split: sum.splits)
        from joinVoiceRoom_same[of h "channel_id d" c] j have "same_closed h h1" by simp
        with sendEvent_same[OF s1] BroadcastToVoiceRoom_same[OF s2] Broadcast_same[OF s3]
        show ?thesis by (blast intro: same_closed_trans)
      qed
    qed
  next
    case leave
    show ?thesis
    proof (cases "msgData evt")
      case None
      with leave assms show ?thesis by (simp add: handleMessage_def)
    next
      case (Some d)
      show ?thesis
      proof (cases "channel_id d = ''''")
        case True
        with leave Some assms show ?thesis by (simp add: handleMessage_def)
      next
        case False
        obtain was_in h1 where l: "leaveVoiceRoom (channel_id d) c h = (was_in, h1)"
          by (cases "leaveVoiceRoom (channel_id d) c h")
        from leaveVoiceRoom_same[of h "channel_id d" c] l have a: "same_closed h h1" by simp
        show ?thesis
        proof (cases was_in)
          case False
          with leave Some \<open>channel_id d \<noteq> ''''\<close> l assms a show ?thesis
            by (simp add: handleMessage_def)
        next
          case True
          let ?evt = "voice_left (channel_id d) (userID (store h1 c))"
          from True leave Some \<open>channel_id d \<noteq> ''''\<close> l assms obtain h2 where
            s1: "BroadcastToVoiceRoom (channel_id d) ?evt None h1 = Inr h2" and
            s2: "Broadcast ?evt h2 = Inr h'"
            by (auto simp: handleMessage_def bindR_def Let_def split: sum.splits)
          from a BroadcastToVoiceRoom_same[OF s1] Broadcast_same[OF s2]
          show ?thesis by (blast intro: same_closed_trans)
        qed
      qed
    qed
  next
    case relay
    show ?thesis
    proof (cases "msgData evt")
      case None
      with relay assms show ?thesis by (auto simp: handleMessage_def)
    next
      case (Some d)
      with assms show ?thesis
        by (auto simp: handleMessage_relay[OF relay Some] split: if_splits dest: SendToUser_same)
    qed
  next
    case media
    with assms show ?thesis
      by (auto simp: handleMessage_def split: option.splits if_splits
          dest: BroadcastToVoiceRoom_same)
  next
    case other
    with assms show ?thesis by (auto simp: handleMessage_def)
  qed
qed

lemma remove_open:
  assumes "registered_open h" and "client \<in> set (clients h)"
  shows "registered_open (h\<lparr>clients := removeAll client (clients h),
           store := (store h)(client := (store h client)\<lparr>send := (send (store h client))\<lparr>closed := True\<rparr>\<rparr>)\<rparr>)"
  using assms by (auto simp: registered_open_def list_all_iff distinct_removeAll)

lemma evict_open: "registered_open h \<Longrightarrow> evict dead h = Inr h' \<Longrightarrow> registered_open h'"
proof (induction dead arbitrary: h)
  case Nil
  then show ?case by simp
next
  case (Cons client rest)
  show ?case
  proof (cases "client \<in> set (clients h)")
    case False
    with Cons show ?thesis by simp
  next
    case True
    let ?h1 = "h\<lparr>clients := removeAll client (clients h),
           store := (store h)(client := (store h client)\<lparr>send := (send (store h client))\<lparr>closed := True\<rparr>\<rparr>)\<rparr>"
    from True Cons.prems(2) have "evict rest ?h1 = Inr h'"
      by (auto simp: closeChan_def split: if_splits)
    from Cons.IH[OF remove_open[OF Cons.prems(1) True] this] show ?thesis .
  qed
qed

lemma Run_registered_open:
  assumes "registered_open h" and "Run sel h = Inr h'"
    and "\<forall>c. sel = RecvRegister c \<longrightarrow> \<not> closed (send (store h c))"
  shows "registered_open h'"
proof (cases sel)
  case (RecvRegister c)
  with assms show ?thesis
    by (auto simp: Run_register_def registered_open_def list_all_iff List.insert_def
        split: if_splits)
next
  case (RecvUnregister c)
  with assms(2) obtain hm where
    m: "(if c \<in> set (clients h) then
              (case closeChan (send (store h c)) of
                 Inl e \<Rightarrow> Inl e
               | Inr ch' \<Rightarrow>
                  Inr (h\<lparr>clients := removeAll c (clients h),
                         store := (store h)(c := (store h c)\<lparr>send := ch'\<rparr>)\<rparr>))
            else Inr h) = Inr hm" and
    l: "leaveAllVoiceRooms c hm = Inr h'"
    by (auto simp: Run_unregister_def bindR_def split: sum.splits)
  have "registered_open hm"
  proof (cases "c \<in> set (clients h)")
    case False
    with m assms(1) show ?thesis by simp
  next
    case True
    with m have "hm = h\<lparr>clients := removeAll c (clients h),
           store := (store h)(c := (store h c)\<lparr>send := (send (store h c))\<lparr>closed := True\<rparr>\<rparr>)\<rparr>"
      by (auto simp: closeChan_def split: if_splits)
    with remove_open[OF assms(1) True] show ?thesis by simp
  qed
  from same_closed_open[OF this leaveAllVoiceRooms_same[OF l]] show ?thesis .
next
  case RecvBroadcast
  with assms(2) obtain message pending where
    q: "broadcast h = message # pending" and
    r: "Run_broadcast message (h\<lparr>broadcast := pending\<rparr>) = Inr h'"
    by (auto split: list.splits)
  from r obtain dead st' where
    loop: "send_loop (\<lambda>c cl. True) message (clients h) (store h) = Inr (dead, st')" and
    e: "(if length dead > 0 then evict dead (h\<lparr>broadcast := pending, store := st'\<rparr>)
         else Inr (h\<lparr>broadcast := pending, store := st'\<rparr>)) = Inr h'"
    by (auto simp: Run_broadcast_def split: sum.splits prod.splits)
  have "same_closed h (h\<lparr>broadcast := pending, store := st'\<rparr>)"
    using send_loop_ids[OF loop] by (simp add: same_closed_def)
  from same_closed_open[OF assms(1) this]
  have o: "registered_open (h\<lparr>broadcast := pending, store := st'\<rparr>)" .
  show ?thesis
  proof (cases "length dead > 0")
    case True
    with e have "evict dead (h\<lparr>broadcast := pending, store := st'\<rparr>) = Inr h'" by simp
    from evict_open[OF o this] show ?thesis .
  next
    case False
    with e o show ?thesis by simp
  qed
qed

lemma NewHub_registered_open: "registered_open (NewHub objs)"
  by (simp add: NewHub_def registered_open_def)

lemma handleMessage_registered_open:
  "registered_open h \<Longrightarrow> handleMessage c evt h = Inr h' \<Longrightarrow> registered_open h'"
  by (blast intro: same_closed_open handleMessage_same)


lemma SendToUser_total:
  assumes "registered_open h"
  shows "\<exists>h'. SendToUser u event h = Inr h'"
proof (cases "json_Marshal event")
  case None
  then show ?thesis by (simp add: SendToUser_def)
next
  case (Some data)
  from assms have "\<forall>c\<in>set (clients h). userID (store h c) = u \<longrightarrow> \<not> closed (send (store h c))"
    by (simp add: registered_open_def list_all_iff)
  from send_loop_total[OF this send_stable_user, of data] obtain dead st' where
    "send_loop (\<lambda>c cl. userID cl = u) data (clients h) (store h) = Inr (dead, st')" by blast
  with Some show ?thesis by (simp add: SendToUser_def)
qed

lemma handleMessage_relay_total:
  assumes "registered_open h"
    and "msgType evt = ''voice.offer'' \<or> msgType evt = ''voice.answer'' \<or> msgType evt = ''voice.ice''"
  shows "\<exists>h'. handleMessage c evt h = Inr h'"
proof (cases "msgData evt")
  case None
  with assms(2) show ?thesis by (auto simp: handleMessage_def)
next
  case (Some d)
  with SendToUser_total[OF assms(1)] show ?thesis
    by (simp add: handleMessage_relay[OF assms(2) Some])
qed

section \<open>The relay case and the encoder\<close>

text \<open>
  What \<^verbatim>\<open>SendToUser\<close> does with the event of the relay case: nothing when the
  encoder rejects the payload, and otherwise a non-blocking send of the event, with
  the payload as the encoder wrote it, to every registered connection of the target.
\<close>

lemma relay_Inr:
  assumes "msgType evt = ''voice.offer'' \<or> msgType evt = ''voice.answer'' \<or> msgType evt = ''voice.ice''"
    and "msgData evt = Some d"
    and "target_user_id d \<noteq> ''''"
    and "AreInSameVoiceRoom (channel_id d) (userID (store h c)) (target_user_id d) h"
  shows "handleMessage c evt h =
           SendToUser (target_user_id d) (relay_event (msgType evt) (userID (store h c)) d) h"
  using assms by (simp add: handleMessage_relay)

lemma relay_effect:
  assumes "SendToUser target (relay_event ty uid d) h = Inr h'"
  shows "encodeRaw (payload d) = None \<Longrightarrow> h' = h"
    and "encodeRaw (payload d) = Some bytes \<Longrightarrow> distinct (clients h) \<Longrightarrow>
           store h' t =
             (if t \<in> set (clients h) \<and> userID (store h t) = target
              then offer (Marshal \<lparr>Type = ty,
                            Data = [(''channel_id'', JString (channel_id d)),
                                    (''from_user_id'', JString uid), (''payload'', JRaw bytes)]\<rparr>)
                     (store h t)
              else store h t)"
    and "clients h' = clients h \<and> voiceRooms h' = voiceRooms h \<and> broadcast h' = broadcast h"
proof -
  show "encodeRaw (payload d) = None \<Longrightarrow> h' = h"
    using assms by (simp add: SendToUser_def json_Marshal_relay)
  show "encodeRaw (payload d) = Some bytes \<Longrightarrow> distinct (clients h) \<Longrightarrow>
           store h' t =
             (if t \<in> set (clients h) \<and> userID (store h t) = target
              then offer (Marshal \<lparr>Type = ty,
                            Data = [(''channel_id'', JString (channel_id d)),
                                    (''from_user_id'', JString uid), (''payload'', JRaw bytes)]\<rparr>)
                     (store h t)
              else store h t)"
  proof -
    assume e: "encodeRaw (payload d) = Some bytes" and dist: "distinct (clients h)"
    let ?w = "Marshal \<lparr>Type = ty,
                Data = [(''channel_id'', JString (channel_id d)),
                        (''from_user_id'', JString uid), (''payload'', JRaw bytes)]\<rparr>"
    from e have m: "json_Marshal (relay_event ty uid d) = Some ?w"
      by (simp add: json_Marshal_relay)
    from SendToUser_store(1)[OF assms m, of t] SendToUser_store(2)[OF assms m dist, of t]
    show ?thesis by auto
  qed
  show "clients h' = clients h \<and> voiceRooms h' = voiceRooms h \<and> broadcast h' = broadcast h"
  proof (cases "json_Marshal (relay_event ty uid d)")
    case None
    with assms show ?thesis by (simp add: SendToUser_def)
  next
    case (Some w)
    from SendToUser_store(3,4,5)[OF assms Some] show ?thesis by simp
  qed
qed

section \<open>No room has the empty channel id\<close>

lemma NewHub_no_blank_room: "no_blank_room (NewHub objs)"
  by (simp add: no_blank_room_def NewHub_def)

lemma joinVoiceRoom_no_blank_room:
  "chID \<noteq> '''' \<Longrightarrow> no_blank_room h \<Longrightarrow> no_blank_room (snd (joinVoiceRoom chID c h))"
  by (simp add: no_blank_room_def joinVoiceRoom_eq update_conv')

lemma leaveVoiceRoom_no_blank_room:
  "no_blank_room h \<Longrightarrow> no_blank_room (snd (leaveVoiceRoom chID c h))"
  by (auto simp: no_blank_room_def leaveVoiceRoom_def Let_def update_conv' delete_conv'
      split: option.splits)

lemma leaveAll_rooms_no_blank:
  "map_of rooms '''' = None \<Longrightarrow> map_of (snd (leaveAll_rooms c rooms)) '''' = None"
  by (induction rooms) (auto simp: Let_def split: prod.splits if_splits)

lemma evict_voiceRooms: "evict dead h = Inr h' \<Longrightarrow> voiceRooms h' = voiceRooms h"
proof (induction dead arbitrary: h)
  case Nil
  then show ?case by simp
next
  case (Cons client rest)
  show ?case
  proof (cases "client \<in> set (clients h)")
    case False
    with Cons show ?thesis by simp
  next
    case True
    with Cons.prems obtain ch' where
      "evict rest (h\<lparr>clients := removeAll client (clients h),
                     store := (store h)(client := (store h client)\<lparr>send := ch'\<rparr>)\<rparr>) = Inr h'"
      by (auto split: sum.splits)
    from Cons.IH[OF this] show ?thesis by simp
  qed
qed

lemma Run_no_blank_room:
  assumes "no_blank_room h" and "Run sel h = Inr h'"
  shows "no_blank_room h'"
proof (cases sel)
  case (RecvRegister c)
  with assms show ?thesis by (auto simp: Run_register_def no_blank_room_def)
next
  case (RecvUnregister c)
  have "\<exists>hm. voiceRooms hm = voiceRooms h \<and> leaveAllVoiceRooms c hm = Inr h'"
  proof (cases "c \<in> set (clients h)")
    case False
    with assms(2) RecvUnregister show ?thesis by (auto simp: Run_unregister_def bindR_def)
  next
    case True
    with assms(2) RecvUnregister obtain ch' where
      "leaveAllVoiceRooms c (h\<lparr>clients := removeAll c (clients h),
           store := (store h)(c := (store h c)\<lparr>send := ch'\<rparr>)\<rparr>) = Inr h'"
      by (auto simp: Run_unregister_def bindR_def split: sum.splits)
    then show ?thesis
      by (intro exI[of _ "h\<lparr>clients := removeAll c (clients h),
           store := (store h)(c := (store h c)\<lparr>send := ch'\<rparr>)\<rparr>"]) simp
  qed
  then obtain hm where
    m: "voiceRooms hm = voiceRooms h" and l: "leaveAllVoiceRooms c hm = Inr h'"
    by blast
  from leaveAllVoiceRooms_rooms[OF l] m leaveAll_rooms_no_blank[of "voiceRooms h" c] assms(1)
  show ?thesis by (simp add: no_blank_room_def)
next
  case RecvBroadcast
  with assms(2) obtain message pending where
    r: "Run_broadcast message (h\<lparr>broadcast := pending\<rparr>) = Inr h'"
    by (auto split: list.splits)
  then obtain dead st' where
    e: "(if length dead > 0 then evict dead (h\<lparr>broadcast := pending, store := st'\<rparr>)
         else Inr (h\<lparr>broadcast := pending, store := st'\<rparr>)) = Inr h'"
    by (auto simp: Run_broadcast_def split: sum.splits prod.splits)
  have "voiceRooms h' = voiceRooms h"
  proof (cases "length dead > 0")
    case True
    with e have "evict dead (h\<lparr>broadcast := pending, store := st'\<rparr>) = Inr h'" by simp
    from evict_voiceRooms[OF this] show ?thesis by simp
  next
    case False
    with e show ?thesis by auto
  qed
  with assms(1) show ?thesis by (simp add: no_blank_room_def)
qed

lemma SendToUser_voiceRooms: "SendToUser u event h = Inr h' \<Longrightarrow> voiceRooms h' = voiceRooms h"
  by (auto simp: SendToUser_def split: option.splits sum.splits prod.splits)

lemma handleMessage_no_blank_room:
  assumes "no_blank_room h" and "handleMessage c evt h = Inr h'"
  shows "no_blank_room h'"
proof -
  consider (subscribe) "msgType evt = ''subscribe''" | (typing) "msgType evt = ''typing''"
    | (join) "msgType evt = ''voice.join''" | (leave) "msgType evt = ''voice.leave''"
    | (relay) "msgType evt = ''voice.offer'' \<or> msgType evt = ''voice.answer'' \<or> msgType evt = ''voice.ice''"
    | (media) "msgType evt = ''voice.media_state''"
    | (other) "msgType evt \<notin> set [''subscribe'', ''typing'', ''voice.join'', ''voice.leave'',
                 ''voice.offer'', ''voice.answer'', ''voice.ice'', ''voice.media_state'']"
    by auto
  then show ?thesis
  proof cases
    case subscribe
    with assms show ?thesis
      by (auto simp: handleMessage_def SetChannel_def no_blank_room_def split: option.splits)
  next
    case typing
    with assms show ?thesis
      by (auto simp: handleMessage_def no_blank_room_def split: option.splits
          elim!: BroadcastToChannel_Inr)
  next
    case join
    show ?thesis
    proof (cases "msgData evt")
      case None
      with join assms show ?thesis by (simp add: handleMessage_def)
    next
      case (Some d)
      show ?thesis
      proof (cases "channel_id d = ''''")
        case True
        with join Some assms show ?thesis by (simp add: handleMessage_def)
      next
        case False
        from handleMessage_join_effect(2)[OF join Some False assms(2)]
          joinVoiceRoom_no_blank_room[OF False assms(1), of c]
        show ?thesis by (simp add: no_blank_room_def)
      qed
    qed
  next
    case leave
    show ?thesis
    proof (cases "msgData evt")
      case None
      with leave assms show ?thesis by (simp add: handleMessage_def)
    next
      case (Some d)
      show ?thesis
      proof (cases "channel_id d = ''''")
        case True
        with leave Some assms show ?thesis by (simp add: handleMessage_def)
      next
        case False
        obtain was_in h1 where l: "leaveVoiceRoom (channel_id d) c h = (was_in, h1)"
          by (cases "leaveVoiceRoom (channel_id d) c h")
        from leaveVoiceRoom_no_blank_room[OF assms(1), of "channel_id d" c] l
        have a: "no_blank_room h1" by simp
        show ?thesis
        proof (cases was_in)
          case False
          with leave Some \<open>channel_id d \<noteq> ''''\<close> l assms a show ?thesis
            by (simp add: handleMessage_def)
        next
          case True
          let ?evt = "voice_left (channel_id d) (userID (store h1 c))"
          from True leave Some \<open>channel_id d \<noteq> ''''\<close> l assms obtain h2 where
            s1: "BroadcastToVoiceRoom (channel_id d) ?evt None h1 = Inr h2" and
            s2: "Broadcast ?evt h2 = Inr h'"
            by (auto simp: handleMessage_def bindR_def Let_def split: sum.splits)
          from a BroadcastToVoiceRoom_frame[OF s1] Broadcast_Inr[OF s2]
          show ?thesis by (simp add: no_blank_room_def)
        qed
      qed
    qed
  next
    case relay
    show ?thesis
    proof (cases "msgData evt")
      case None
      with relay assms show ?thesis by (auto simp: handleMessage_def)
    next
      case (Some d)
      with assms show ?thesis
        by (auto simp: handleMessage_relay[OF relay Some] no_blank_room_def split: if_splits
            dest: SendToUser_voiceRooms)
    qed
  next
    case media
    with assms show ?thesis
      by (auto simp: handleMessage_def no_blank_room_def split: option.splits if_splits
          dest: BroadcastToVoiceRoom_frame)
  next
    case other
    with assms show ?thesis by (auto simp: handleMessage_def)
  qed
qed


section \<open>Runs of the relay and of the read loop on the example states\<close>

lemma call_room_open: "registered_open call_room"
  by (simp add: call_room_def registered_open_def mkClient_def)



lemma relay_full_run:
  "\<exists>h'. handleMessage 1 (offer_frame ''U2'' sdp_compact) relay_full = Inr h'"
  by (simp add: relay_full_def offer_frame_def handleMessage_def AreInSameVoiceRoom_def
      mkClient_def SendToUser_def json_Marshal_def relay_event_def sdp_encodings
      trySend_def chan_cap_def)

lemma call_room_run:
  "\<exists>h'. handleMessage 1 (offer_frame ''U2'' bytes) call_room = Inr h'"
  using handleMessage_relay_total[OF call_room_open, of "offer_frame ''U2'' bytes" 1]
  by (simp add: offer_frame_def)

lemma call_room_spaced:
  "handleMessage 1 (offer_frame ''U2'' sdp_spaced) call_room = Inr call_relayed"
  by (simp add: call_room_def call_relayed_def relayed_offer_def offer_frame_def handleMessage_def
      AreInSameVoiceRoom_def mkClient_def SendToUser_def json_Marshal_def relay_event_def
      sdp_encodings trySend_def chan_cap_def fun_eq_iff)

section \<open>Signalling relay is gated on room co-membership\<close>




section \<open>No room of the registry is empty\<close>

text \<open>
  Claim C2. When a join, a leave or a leave-all completes in a registry without empty
  rooms, the registry again has no empty room and \<^verbatim>\<open>GetVoiceRoomSnapshot\<close> has no
  empty list of user ids; so this holds after every finite run of these operations
  that starts from the empty registry.
\<close>

theorem room_emptiness_invariant:
  "(no_empty_room (voiceRooms h) \<and> registry_step op h = Inr h1 \<longrightarrow>
      no_empty_room (voiceRooms h1) \<and> (\<forall>(chID, uids)\<in>set (GetVoiceRoomSnapshot h1). uids \<noteq> []))
   \<and> (voiceRooms h0 = [] \<and> registry_run ops h0 = Inr h2 \<longrightarrow>
      no_empty_room (voiceRooms h2) \<and> (\<forall>(chID, uids)\<in>set (GetVoiceRoomSnapshot h2). uids \<noteq> []))"
proof -
  have "no_empty_room (voiceRooms h0)" if "voiceRooms h0 = []"
    using that by (simp add: no_empty_room_def)
  then show ?thesis
    using registry_step_no_empty[of h op h1] registry_run_no_empty[of h0 ops h2] snapshot_no_empty
    by blast
qed

theorem room_emptiness_invariant_witness:
  "no_empty_room (voiceRooms fresh_hub) \<and> voiceRooms fresh_hub = [] \<and>
   (\<exists>h1 h2. registry_step (Join ''r1'' 1) fresh_hub = Inr h1 \<and> no_empty_room (voiceRooms h1) \<and>
       registry_run [Join ''r1'' 1, Join ''r1'' 2, Join ''r2'' 1, Leave ''r1'' 1, LeaveAll 1]
         fresh_hub = Inr h2 \<and>
       no_empty_room (voiceRooms h2) \<and> GetVoiceRoomSnapshot h2 = [(''r1'', [''U2''])])"
proof -
  have p: "no_empty_room (voiceRooms fresh_hub)" and e: "voiceRooms fresh_hub = []"
    by (simp_all add: fresh_hub_def no_empty_room_def)
  obtain h1 where s: "registry_step (Join ''r1'' 1) fresh_hub = Inr h1" by simp
  from fresh_run obtain h2 where
    r: "registry_run [Join ''r1'' 1, Join ''r1'' 2, Join ''r2'' 1, Leave ''r1'' 1, LeaveAll 1]
          fresh_hub = Inr h2" and
    g: "GetVoiceRoomSnapshot h2 = [(''r1'', [''U2''])]" by blast
  from room_emptiness_invariant[of fresh_hub "Join ''r1'' 1" h1 fresh_hub _ h2] p e s r
  have "no_empty_room (voiceRooms h1)" "no_empty_room (voiceRooms h2)" by blast+
  with p e s r g show ?thesis by blast
qed

section \<open>Cleanup is idempotent\<close>

text \<open>
  Claim C3. If the unregister case of \<^verbatim>\<open>Run\<close> returns for a connection, running
  it again for the same connection returns the very same state: no queue is closed a
  second time, nothing is removed and no further event is put on any queue. The same
  holds for \<^verbatim>\<open>leaveAllVoiceRooms\<close>. After the first call the connection is in
  neither the client set nor any room.
\<close>

theorem cleanup_idempotent:
  "(Run_unregister c h = Inr h1 \<longrightarrow>
      Run_unregister c h1 = Inr h1 \<and> c \<notin> set (clients h1) \<and> in_no_room c (voiceRooms h1))
   \<and> (leaveAllVoiceRooms c h = Inr h2 \<longrightarrow>
      leaveAllVoiceRooms c h2 = Inr h2 \<and> in_no_room c (voiceRooms h2))"
proof -
  have "Run_unregister c h1 = Inr h1 \<and> c \<notin> set (clients h1) \<and> in_no_room c (voiceRooms h1)"
    if u: "Run_unregister c h = Inr h1"
  proof -
    from u obtain hm where
      l: "leaveAllVoiceRooms c hm = Inr h1" and n: "c \<notin> set (clients hm)"
      by (rule Run_unregister_Inr)
    from leaveAllVoiceRooms_rooms[OF l] n have n1: "c \<notin> set (clients h1)" by simp
    from leaveAllVoiceRooms_twice[OF l] n1 show ?thesis
      by (simp add: Run_unregister_def bindR_def)
  qed
  then show ?thesis using leaveAllVoiceRooms_twice[of c h h2] by blast
qed

theorem cleanup_idempotent_witness:
  "\<exists>h1 h2. Run_unregister 1 two_rooms = Inr h1 \<and> Run_unregister 1 h1 = Inr h1 \<and>
      voiceRooms h1 = [(''R2'', [2])] \<and> clients h1 = [2] \<and>
      leaveAllVoiceRooms 1 two_rooms = Inr h2 \<and> leaveAllVoiceRooms 1 h2 = Inr h2"
proof -
  from two_rooms_unregister obtain h1 where
    u: "Run_unregister 1 two_rooms = Inr h1" and
    v: "voiceRooms h1 = [(''R2'', [2])]" "clients h1 = [2]" by blast
  from two_rooms_leaveAll obtain h2 where l: "leaveAllVoiceRooms 1 two_rooms = Inr h2" by blast
  from cleanup_idempotent[of 1 two_rooms h1 h2] u l
  have "Run_unregister 1 h1 = Inr h1" "leaveAllVoiceRooms 1 h2 = Inr h2" by blast+
  with u v l show ?thesis by blast
qed

section \<open>Global broadcast with a stalled connection\<close>

text \<open>
  Claim C4. The broadcast case of \<^verbatim>\<open>Hub.Run\<close> takes a message from
  \<^verbatim>\<open>h.broadcast\<close>. If the registered connections are pairwise different and
  open, and \<open>stalled\<close> is the only one whose queue is full, the step returns; the
  message has been appended exactly once to the queue of every other registered
  connection, which stays registered and open; and \<open>stalled\<close> is no longer in the
  client set, its queue closed and otherwise as it was.
\<close>

theorem Run_broadcast_evicts_stalled:
  assumes queue: "broadcast h = message # pending"
    and dist: "distinct (clients h)"
    and mem: "stalled \<in> set (clients h)"
    and opn: "\<forall>c\<in>set (clients h). \<not> closed (send (store h c))"
    and full: "\<forall>c\<in>set (clients h). (length (buf (send (store h c))) < chan_cap) = (c \<noteq> stalled)"
  shows "\<exists>h'. Run RecvBroadcast h = Inr h' \<and>
           (\<forall>c\<in>set (clients h). c \<noteq> stalled \<longrightarrow>
              buf (send (store h' c)) = buf (send (store h c)) @ [message] \<and>
              \<not> closed (send (store h' c)) \<and> c \<in> set (clients h')) \<and>
           stalled \<notin> set (clients h') \<and>
           closed (send (store h' stalled)) \<and>
           buf (send (store h' stalled)) = buf (send (store h stalled))"
proof -
  let ?all = "\<lambda>(c::cid) (cl::Client). True"
  have st: "send_stable ?all" by (rule send_stable_const)
  from opn have "\<forall>c\<in>set (clients h). ?all c (store h c) \<longrightarrow> \<not> closed (send (store h c))"
    by simp
  from send_loop_total[OF this st] obtain dead st' where
    loop: "send_loop ?all message (clients h) (store h) = Inr (dead, st')" by blast
  have st': "st' c = (if c \<in> set (clients h) then offer message (store h c) else store h c)" for c
    using send_loop_distinct(1)[OF loop dist st, of c] by simp
  have "dead = filter (\<lambda>c. \<not> length (buf (send (store h c))) < chan_cap) (clients h)"
    using send_loop_distinct(2)[OF loop dist st] by simp
  also have "\<dots> = [stalled]"
    using dist mem full by (intro filter_single) auto
  finally have dead: "dead = [stalled]" .
  have stalled_same: "st' stalled = store h stalled"
    using st'[of stalled] mem full by (simp add: offer_def)
  let ?h' = "h\<lparr>broadcast := pending,
               clients := removeAll stalled (clients h),
               store := st'(stalled := (st' stalled)\<lparr>send := (send (st' stalled))\<lparr>closed := True\<rparr>\<rparr>)\<rparr>"
  have run: "Run RecvBroadcast h = Inr ?h'"
    using queue loop dead mem opn stalled_same
    by (simp add: Run_broadcast_def closeChan_def)
  have others: "buf (send (store ?h' c)) = buf (send (store h c)) @ [message] \<and>
      \<not> closed (send (store ?h' c)) \<and> c \<in> set (clients ?h')"
    if "c \<in> set (clients h)" "c \<noteq> stalled" for c
    using that st'[of c] full opn by (simp add: offer_def)
  have "stalled \<notin> set (clients ?h')" by simp
  moreover have "closed (send (store ?h' stalled))" by simp
  moreover have "buf (send (store ?h' stalled)) = buf (send (store h stalled))"
    using stalled_same by simp
  ultimately show ?thesis using run others by blast
qed

theorem Run_broadcast_evicts_stalled_witness:
  "\<exists>h'. Run RecvBroadcast one_stalled = Inr h' \<and>
      buf (send (store h' 1)) = [Marshal (voice_joined ''general-voice'' ''U1'')] \<and>
      buf (send (store h' 2)) = [filler, Marshal (voice_joined ''general-voice'' ''U1'')] \<and>
      3 \<notin> set (clients h') \<and> closed (send (store h' 3))"
proof -
  have q: "broadcast one_stalled = Marshal (voice_joined ''general-voice'' ''U1'') # []"
    by (simp add: one_stalled_def)
  have d: "distinct (clients one_stalled)" by (simp add: one_stalled_def)
  have m: "3 \<in> set (clients one_stalled)" by (simp add: one_stalled_def)
  have o: "\<forall>c\<in>set (clients one_stalled). \<not> closed (send (store one_stalled c))"
    by (simp add: one_stalled_def mkClient_def)
  have f: "\<forall>c\<in>set (clients one_stalled).
      (length (buf (send (store one_stalled c))) < chan_cap) = (c \<noteq> 3)"
    by (simp add: one_stalled_def mkClient_def chan_cap_def)
  from Run_broadcast_evicts_stalled[OF q d m o f] obtain h' where
    h': "Run RecvBroadcast one_stalled = Inr h'"
      "\<forall>c\<in>set (clients one_stalled). c \<noteq> 3 \<longrightarrow>
          buf (send (store h' c)) = buf (send (store one_stalled c)) @ [Marshal (voice_joined ''general-voice'' ''U1'')] \<and>
          \<not> closed (send (store h' c)) \<and> c \<in> set (clients h')"
      "3 \<notin> set (clients h')" "closed (send (store h' 3))"
    by blast
  from h'(2) have "buf (send (store h' 1)) = [Marshal (voice_joined ''general-voice'' ''U1'')]"
    "buf (send (store h' 2)) = [filler, Marshal (voice_joined ''general-voice'' ''U1'')]"
    by (simp_all add: one_stalled_def mkClient_def)
  with h'(1,3,4) show ?thesis by blast
qed

section \<open>What a join returns\<close>

text \<open>
  Claim C5, as stated, fails when the joiner is already a member of the room: the
  returned list then holds the joiner's own user id, while the list of the members
  other than the joiner is empty.
\<close>

theorem joiner_not_excluded_counterexample:
  "room_of (voiceRooms solo_room) ''general-voice'' = [1]
   \<and> userID (store solo_room 1) = ''U1''
   \<and> fst (joinVoiceRoom ''general-voice'' 1 solo_room) = [''U1'']"
  by (simp add: solo_room_def joinVoiceRoom_def room_of_def mkClient_def Let_def)

text \<open>
  Claim C5, amended. \<^verbatim>\<open>joinVoiceRoom\<close> returns exactly the user ids of the
  connections that were members of the room immediately before the join; the joiner
  is left out of them when it was not already a member. When the handler of
  \<^verbatim>\<open>voice.join\<close> returns, the joiner has been offered the
  \<^verbatim>\<open>voice.room_state\<close> event whose \<^verbatim>\<open>participants\<close> field is that list. The
  first joiner of a room gets the empty list (a JSON array, not null), and a second
  joiner gets exactly the user id of the first.
\<close>

theorem joinVoiceRoom_prior_members:
  "fst (joinVoiceRoom chID c h) = map (\<lambda>c'. userID (store h c')) (room_of (voiceRooms h) chID)
   \<and> (c \<notin> set (room_of (voiceRooms h) chID) \<longrightarrow>
        fst (joinVoiceRoom chID c h)
          = map (\<lambda>c'. userID (store h c')) (filter (\<lambda>c'. c' \<noteq> c) (room_of (voiceRooms h) chID)))
   \<and> (msgType evt = ''voice.join'' \<and> msgData evt = Some d \<and> channel_id d = chID \<and> chID \<noteq> ''''
        \<and> handleMessage c evt h = Inr h' \<longrightarrow>
        store h' c =
          offer (Marshal \<lparr>Type = ''voice.room_state'',
                          Data = [(''channel_id'', JString chID),
                                  (''participants'', JStrings (fst (joinVoiceRoom chID c h)))]\<rparr>)
            (store h c))
   \<and> (map_of (voiceRooms h) chID = None \<longrightarrow> fst (joinVoiceRoom chID c h) = [])
   \<and> (room_of (voiceRooms h) chID = [c1] \<and> c \<noteq> c1 \<longrightarrow>
        fst (joinVoiceRoom chID c h) = [userID (store h c1)])"
proof -
  have a: "fst (joinVoiceRoom chID c h) = map (\<lambda>c'. userID (store h c')) (room_of (voiceRooms h) chID)"
    by (simp add: joinVoiceRoom_eq)
  have b: "filter (\<lambda>c'. c' \<noteq> c) (room_of (voiceRooms h) chID) = room_of (voiceRooms h) chID"
    if "c \<notin> set (room_of (voiceRooms h) chID)"
    using that by (auto simp: filter_id_conv)
  have e: "store h' c = offer (Marshal (room_state chID (fst (joinVoiceRoom chID c h)))) (store h c)"
    if "msgType evt = ''voice.join''" "msgData evt = Some d" "channel_id d = chID" "chID \<noteq> ''''"
      "handleMessage c evt h = Inr h'"
    using handleMessage_join_effect(1)[of evt d c h h'] that by simp
  show ?thesis
    using a b e by (auto simp: room_state_def room_of_absent)
qed

theorem joinVoiceRoom_prior_members_witness:
  "map_of (voiceRooms fresh_hub) ''general-voice'' = None \<and>
   fst (joinVoiceRoom ''general-voice'' 1 fresh_hub) = [] \<and>
   handleMessage 1 (join_frame ''general-voice'') fresh_hub = Inr first_joined \<and>
   buf (send (store first_joined 1)) = [Marshal (room_state ''general-voice'' [])] \<and>
   room_of (voiceRooms first_joined) ''general-voice'' = [1] \<and>
   fst (joinVoiceRoom ''general-voice'' 2 first_joined) = [''U1''] \<and>
   (\<exists>h'. handleMessage 2 (join_frame ''general-voice'') first_joined = Inr h' \<and>
      buf (send (store h' 2)) = [Marshal (room_state ''general-voice'' [''U1''])])"
proof -
  let ?gv = "''general-voice''"
  have n: "map_of (voiceRooms fresh_hub) ?gv = None" by (simp add: fresh_hub_def)
  let ?d = "\<lparr>channel_id = ?gv, target_user_id = '''', payload = '''',
             cam_enabled = False, screen_sharing = False\<rparr>"
  have f: "msgType (join_frame ?gv) = ''voice.join''" "msgData (join_frame ?gv) = Some ?d"
    "channel_id ?d = ?gv" "?gv \<noteq> ''''"
    by (simp_all add: join_frame_def)
  note A = joinVoiceRoom_prior_members[of ?gv 1 fresh_hub "join_frame ?gv" ?d first_joined 0]
  from A n have a1: "fst (joinVoiceRoom ?gv 1 fresh_hub) = []" by blast
  from A f first_join_run have
    "store first_joined 1 =
       offer (Marshal \<lparr>Type = ''voice.room_state'',
                Data = [(''channel_id'', JString ?gv),
                        (''participants'', JStrings (fst (joinVoiceRoom ?gv 1 fresh_hub)))]\<rparr>)
         (store fresh_hub 1)"
    by blast
  with a1 have a2: "buf (send (store first_joined 1)) = [Marshal (room_state ?gv [])]"
    by (simp add: offer_def room_state_def fresh_hub_def mkClient_def chan_cap_def)
  have r: "room_of (voiceRooms first_joined) ?gv = [1]"
    by (simp add: first_joined_rooms room_of_def)
  have u: "userID (store first_joined 1) = ''U1''" "store first_joined 2 = store fresh_hub 2"
    by (simp_all add: first_joined_def fresh_hub_def join_frame_def eval_defs)
  from second_join_run obtain h' where
    s: "handleMessage 2 (join_frame ?gv) first_joined = Inr h'" by blast
  note B = joinVoiceRoom_prior_members[of ?gv 2 first_joined "join_frame ?gv" ?d h' 1]
  have "(2::nat) \<noteq> 1" by simp
  with B r have "fst (joinVoiceRoom ?gv 2 first_joined) = [userID (store first_joined 1)]"
    by blast
  with u have b1: "fst (joinVoiceRoom ?gv 2 first_joined) = [''U1'']" by simp
  from B f s have
    "store h' 2 =
       offer (Marshal \<lparr>Type = ''voice.room_state'',
                Data = [(''channel_id'', JString ?gv),
                        (''participants'', JStrings (fst (joinVoiceRoom ?gv 2 first_joined)))]\<rparr>)
         (store first_joined 2)"
    by blast
  with b1 u have b2: "buf (send (store h' 2)) = [Marshal (room_state ?gv [''U1''])]"
    by (simp add: offer_def room_state_def fresh_hub_def mkClient_def chan_cap_def)
  from n a1 first_join_run a2 r b1 s b2 show ?thesis by blast
qed

section \<open>What an authorised relay delivers\<close>

text \<open>
  Claim C6, as stated, fails in two ways. When the queue of a connection of the
  target user is full, the relay is authorised, the handler returns, and that
  connection's queue is as before, without the event. And the payload is not passed
  on byte for byte: \<^verbatim>\<open>json.Marshal\<close> writes the raw message through the
  encoder, so that a payload with white space between its tokens is queued without
  that white space.
\<close>

theorem relay_full_queue_counterexample:
  "AreInSameVoiceRoom ''general-voice'' ''U1'' ''U2'' relay_full
   \<and> userID (store relay_full 1) = ''U1''
   \<and> clients relay_full = [1, 2]
   \<and> userID (store relay_full 2) = ''U2''
   \<and> length (buf (send (store relay_full 2))) = 256
   \<and> handleMessage 1 (offer_frame ''U2'' sdp_compact) relay_full = Inr relay_full
   \<and> AreInSameVoiceRoom ''general-voice'' ''U1'' ''U2'' call_room
   \<and> handleMessage 1 (offer_frame ''U2'' sdp_spaced) call_room = Inr call_relayed
   \<and> buf (send (store call_relayed 2)) = [relayed_offer sdp_compact]
   \<and> sdp_spaced \<noteq> sdp_compact"
proof -
  have "handleMessage 1 (offer_frame ''U2'' sdp_compact) relay_full = Inr relay_full"
    by (simp add: relay_full_def offer_frame_def handleMessage_def AreInSameVoiceRoom_def
        mkClient_def SendToUser_def json_Marshal_def relay_event_def sdp_encodings
        trySend_def chan_cap_def fun_eq_iff)
  moreover have "AreInSameVoiceRoom ''general-voice'' ''U1'' ''U2'' relay_full"
    "userID (store relay_full 1) = ''U1''" "clients relay_full = [1, 2]"
    "userID (store relay_full 2) = ''U2''" "length (buf (send (store relay_full 2))) = 256"
    by (simp_all add: relay_full_def AreInSameVoiceRoom_def mkClient_def)
  moreover have "AreInSameVoiceRoom ''general-voice'' ''U1'' ''U2'' call_room"
    by (simp add: call_room_def AreInSameVoiceRoom_def mkClient_def)
  moreover have "buf (send (store call_relayed 2)) = [relayed_offer sdp_compact]"
    by (simp add: call_relayed_def mkClient_def)
  ultimately show ?thesis using call_room_spaced sdp_encodings(3) by simp
qed

text \<open>
  Claim C6, amended. When the relay is authorised and the handler returns, the client
  set having no duplicates: every registered connection of the target user whose queue
  is not full has received, once, the event whose type is the inbound type and whose
  data holds the inbound \<^verbatim>\<open>channel_id\<close>, the sender's user id as
  \<^verbatim>\<open>from_user_id\<close>, and the payload as the encoder writes it; a registered
  connection of the target user whose queue is full is unchanged; and so is every
  other connection. The encoder writes \<^verbatim>\<open>null\<close> for an absent payload; it
  writes a payload that is not empty and has no white space, none of \<^verbatim>\<open><\<close>,
  \<^verbatim>\<open>>\<close> and \<^verbatim>\<open>&\<close> and no byte \<^verbatim>\<open>0xE2\<close> byte for byte; and when it
  rejects the payload nothing is sent. That the handler returns when the registered
  connections are open is lemma \<open>handleMessage_relay_total\<close>.
\<close>

theorem relay_delivery:
  assumes "msgType evt = ''voice.offer'' \<or> msgType evt = ''voice.answer'' \<or> msgType evt = ''voice.ice''"
    and "msgData evt = Some d"
    and "target_user_id d \<noteq> ''''"
    and "AreInSameVoiceRoom (channel_id d) (userID (store h c)) (target_user_id d) h"
    and "distinct (clients h)"
    and "handleMessage c evt h = Inr h'"
  shows "(\<forall>bytes. encodeRaw (payload d) = Some bytes \<longrightarrow>
            (\<forall>t\<in>set (clients h). userID (store h t) = target_user_id d \<longrightarrow>
               (length (buf (send (store h t))) < chan_cap \<longrightarrow>
                  buf (send (store h' t)) = buf (send (store h t)) @
                    [Marshal \<lparr>Type = msgType evt,
                              Data = [(''channel_id'', JString (channel_id d)),
                                      (''from_user_id'', JString (userID (store h c))),
                                      (''payload'', JRaw bytes)]\<rparr>]) \<and>
               (\<not> length (buf (send (store h t))) < chan_cap \<longrightarrow> store h' t = store h t)))
       \<and> (\<forall>t. t \<notin> set (clients h) \<or> userID (store h t) \<noteq> target_user_id d \<longrightarrow>
            store h' t = store h t)
       \<and> (payload d = [] \<longrightarrow> encodeRaw (payload d) = Some ''null'')
       \<and> (payload d \<noteq> [] \<and> (\<forall>b\<in>set (payload d). plain_byte b) \<longrightarrow>
            (\<forall>bytes. encodeRaw (payload d) = Some bytes \<longrightarrow> bytes = payload d))
       \<and> (encodeRaw (payload d) = None \<longrightarrow> h' = h)"
proof -
  from assms have s: "SendToUser (target_user_id d)
      (relay_event (msgType evt) (userID (store h c)) d) h = Inr h'"
    by (simp add: relay_Inr)
  note eff = relay_effect[OF s]
  have a: "\<forall>bytes. encodeRaw (payload d) = Some bytes \<longrightarrow>
            (\<forall>t\<in>set (clients h). userID (store h t) = target_user_id d \<longrightarrow>
               (length (buf (send (store h t))) < chan_cap \<longrightarrow>
                  buf (send (store h' t)) = buf (send (store h t)) @
                    [Marshal \<lparr>Type = msgType evt,
                              Data = [(''channel_id'', JString (channel_id d)),
                                      (''from_user_id'', JString (userID (store h c))),
                                      (''payload'', JRaw bytes)]\<rparr>]) \<and>
               (\<not> length (buf (send (store h t))) < chan_cap \<longrightarrow> store h' t = store h t))"
    using eff(2)[OF _ assms(5)] by (simp add: offer_def)
  have b: "\<forall>t. t \<notin> set (clients h) \<or> userID (store h t) \<noteq> target_user_id d \<longrightarrow>
            store h' t = store h t"
  proof (cases "encodeRaw (payload d)")
    case None
    from eff(1)[OF None] show ?thesis by simp
  next
    case (Some bytes)
    from eff(2)[OF Some assms(5)] show ?thesis by auto
  qed
  have n: "payload d = [] \<longrightarrow> encodeRaw (payload d) = Some ''null''"
    by (simp add: encodeRaw_nil)
  have p: "payload d \<noteq> [] \<and> (\<forall>b\<in>set (payload d). plain_byte b) \<longrightarrow>
            (\<forall>bytes. encodeRaw (payload d) = Some bytes \<longrightarrow> bytes = payload d)"
    using encodeRaw_plain by blast
  from a b n p eff(1) show ?thesis by blast
qed

theorem relay_delivery_witness:
  "(\<exists>h'. handleMessage 1 (offer_frame ''U2'' sdp_spaced) call_room = Inr h' \<and>
      buf (send (store h' 2)) = [relayed_offer sdp_compact] \<and>
      store h' 3 = store call_room 3) \<and>
   (\<exists>h'. handleMessage 1 (offer_frame ''U2'' sdp_compact) call_room = Inr h' \<and>
      buf (send (store h' 2)) = [relayed_offer sdp_compact]) \<and>
   (\<exists>h'. handleMessage 1 (offer_frame ''U2'' sdp_compact) relay_full = Inr h' \<and>
      store h' 2 = store relay_full 2)"
proof -
  let ?gv = "''general-voice''"
  let ?d = "\<lambda>p. \<lparr>channel_id = ?gv, target_user_id = ''U2'', payload = p,
             cam_enabled = False, screen_sharing = False\<rparr>"
  have t: "msgType (offer_frame ''U2'' p) = ''voice.offer'' \<or> msgType (offer_frame ''U2'' p) = ''voice.answer''
       \<or> msgType (offer_frame ''U2'' p) = ''voice.ice''" for p
    by (simp add: offer_frame_def)
  have d: "msgData (offer_frame ''U2'' p) = Some (?d p)" for p by (simp add: offer_frame_def)
  have n: "target_user_id (?d p) \<noteq> ''''" for p by simp
  have a: "AreInSameVoiceRoom (channel_id (?d p)) (userID (store call_room 1)) (target_user_id (?d p)) call_room" for p
    by (simp add: call_room_def AreInSameVoiceRoom_def mkClient_def)
  have a': "AreInSameVoiceRoom (channel_id (?d p)) (userID (store relay_full 1)) (target_user_id (?d p)) relay_full" for p
    by (simp add: relay_full_def AreInSameVoiceRoom_def mkClient_def)
  have dc: "distinct (clients call_room)" by (simp add: call_room_def)
  have dr: "distinct (clients relay_full)" by (simp add: relay_full_def)
  from call_room_run obtain h1 where
    r1: "handleMessage 1 (offer_frame ''U2'' sdp_spaced) call_room = Inr h1" by blast
  from call_room_run obtain h3 where
    r3: "handleMessage 1 (offer_frame ''U2'' sdp_compact) call_room = Inr h3" by blast
  from relay_full_run obtain h2 where
    r2: "handleMessage 1 (offer_frame ''U2'' sdp_compact) relay_full = Inr h2" by blast
  note W1 = relay_delivery[OF t d n a dc r1]
  note W3 = relay_delivery[OF t d n a dc r3]
  note W2 = relay_delivery[OF t d n a' dr r2]
  have m: "2 \<in> set (clients call_room)" "userID (store call_room 2) = target_user_id (?d p)"
    "length (buf (send (store call_room 2))) < chan_cap"
    "3 \<notin> set (clients call_room) \<or> userID (store call_room 3) \<noteq> target_user_id (?d p)" for p
    by (simp_all add: call_room_def mkClient_def chan_cap_def)
  have sp: "encodeRaw (payload (?d sdp_spaced)) = Some sdp_compact"
    by (simp add: sdp_encodings)
  from W1 sp m(1,2,3) have "buf (send (store h1 2)) = buf (send (store call_room 2)) @
                 [Marshal \<lparr>Type = msgType (offer_frame ''U2'' sdp_spaced),
                           Data = [(''channel_id'', JString (channel_id (?d sdp_spaced))),
                                   (''from_user_id'', JString (userID (store call_room 1))),
                                   (''payload'', JRaw sdp_compact)]\<rparr>]"
    by blast
  then have q1: "buf (send (store h1 2)) = [relayed_offer sdp_compact]"
    by (simp add: call_room_def mkClient_def offer_frame_def relayed_offer_def)
  from W1 m(4) have q2: "store h1 3 = store call_room 3" by blast
  from sdp_compact_encodes obtain bytes where
    en: "encodeRaw (payload (?d sdp_compact)) = Some bytes" by auto
  have pl: "payload (?d sdp_compact) \<noteq> [] \<and> (\<forall>b\<in>set (payload (?d sdp_compact)). plain_byte b)"
    using sdp_compact_plain by simp
  from W3 pl en have same: "bytes = payload (?d sdp_compact)" by blast
  from W3 en m(1,2,3) have "buf (send (store h3 2)) = buf (send (store call_room 2)) @
                 [Marshal \<lparr>Type = msgType (offer_frame ''U2'' sdp_compact),
                           Data = [(''channel_id'', JString (channel_id (?d sdp_compact))),
                                   (''from_user_id'', JString (userID (store call_room 1))),
                                   (''payload'', JRaw bytes)]\<rparr>]"
    by blast
  with same have q3: "buf (send (store h3 2)) = [relayed_offer sdp_compact]"
    by (simp add: call_room_def mkClient_def offer_frame_def relayed_offer_def)
  have m': "2 \<in> set (clients relay_full)" "userID (store relay_full 2) = target_user_id (?d sdp_compact)"
    "\<not> length (buf (send (store relay_full 2))) < chan_cap"
    by (simp_all add: relay_full_def mkClient_def chan_cap_def)
  have sc: "encodeRaw (payload (?d sdp_compact)) = Some sdp_compact"
    by (simp add: sdp_encodings)
  from W2 sc m' have q4: "store h2 2 = store relay_full 2" by blast
  from r1 q1 q2 r3 q3 r2 q4 show ?thesis by (simp del: One_nat_def)
qed

section \<open>Channel-scoped broadcast\<close>

text \<open>
  Claim C7. When \<^verbatim>\<open>BroadcastToChannel(B, event)\<close> returns, every connection whose
  viewed channel differs from \<open>B\<close> is exactly as before, so nothing was enqueued on
  its queue; a connection that did change is registered and views \<open>B\<close>; and, the
  client set having no duplicates, each registered viewer of \<open>B\<close> was offered the
  event once.
\<close>

theorem BroadcastToChannel_isolation:
  assumes "BroadcastToChannel B event h = Inr h'"
  shows "(\<forall>c. channelID (store h c) \<noteq> B \<longrightarrow> store h' c = store h c) \<and>
         (\<forall>c. store h' c \<noteq> store h c \<longrightarrow> c \<in> set (clients h) \<and> channelID (store h c) = B) \<and>
         (distinct (clients h) \<longrightarrow>
            (\<forall>c\<in>set (clients h). channelID (store h c) = B \<longrightarrow>
               store h' c = offer (Marshal event) (store h c)))"
proof -
  from assms obtain dead st' where
    loop: "send_loop (\<lambda>c cl. channelID cl = B) (Marshal event) (clients h) (store h) = Inr (dead, st')"
    and h': "h' = h\<lparr>store := st'\<rparr>"
    by (rule BroadcastToChannel_Inr)
  have unsent: "\<And>c. c \<notin> set (clients h) \<or> channelID (store h c) \<noteq> B \<Longrightarrow> st' c = store h c"
    using send_loop_unsent[OF loop _ send_stable_channel] by blast
  have sent: "distinct (clients h) \<Longrightarrow> c \<in> set (clients h) \<Longrightarrow> channelID (store h c) = B \<Longrightarrow>
      st' c = offer (Marshal event) (store h c)" for c
    using send_loop_distinct(1)[OF loop _ send_stable_channel, of c] by simp
  show ?thesis
    using unsent sent by (auto simp: h')
qed

theorem BroadcastToChannel_isolation_witness:
  "BroadcastToChannel ''B'' (typing_event ''U9'' ''B'') two_viewers
     = Inr (two_viewers\<lparr>store := (store two_viewers)
              (2 := offer (Marshal (typing_event ''U9'' ''B'')) (store two_viewers 2))\<rparr>)
   \<and> channelID (store two_viewers 1) \<noteq> ''B''
   \<and> buf (send (store (two_viewers\<lparr>store := (store two_viewers)
              (2 := offer (Marshal (typing_event ''U9'' ''B'')) (store two_viewers 2))\<rparr>) 1)) = []"
proof -
  let ?h' = "two_viewers\<lparr>store := (store two_viewers)
              (2 := offer (Marshal (typing_event ''U9'' ''B'')) (store two_viewers 2))\<rparr>"
  have run: "BroadcastToChannel ''B'' (typing_event ''U9'' ''B'') two_viewers = Inr ?h'"
    by (simp add: BroadcastToChannel_def two_viewers_def mkClient_def trySend_def chan_cap_def
        offer_def)
  have a: "channelID (store two_viewers 1) \<noteq> ''B''"
    by (simp add: two_viewers_def mkClient_def)
  from BroadcastToChannel_isolation[OF run] a have "store ?h' 1 = store two_viewers 1"
    by blast
  then have "buf (send (store ?h' 1)) = []"
    by (simp add: two_viewers_def mkClient_def)
  with run a show ?thesis by blast
qed

section \<open>Frames that are dropped\<close>




section \<open>Media state is fanned out without a membership check\<close>

text \<open>
  Claim C9. For a \<^verbatim>\<open>voice.media_state\<close> frame with a non-empty
  \<^verbatim>\<open>channel_id\<close> the handler is exactly \<^verbatim>\<open>BroadcastToVoiceRoom\<close> on that room
  with the sender's connection excluded and the sender's user id attached as
  \<^verbatim>\<open>from_user_id\<close>; nothing in it depends on the sender being a member. When the
  queues of the other members are open the call returns, the sender's connection is
  unchanged, and (the room having no duplicates) every other member has been offered
  the event by the non-blocking send.
\<close>

theorem media_state_fanout:
  assumes "msgType evt = ''voice.media_state''" and "msgData evt = Some d" and "channel_id d \<noteq> ''''"
  shows "handleMessage c evt h =
           BroadcastToVoiceRoom (channel_id d)
             \<lparr>Type = ''voice.media_state'',
              Data = [(''channel_id'', JString (channel_id d)),
                      (''from_user_id'', JString (userID (store h c))),
                      (''cam_enabled'', JBool (cam_enabled d)),
                      (''screen_sharing'', JBool (screen_sharing d))]\<rparr> (Some c) h
       \<and> ((\<forall>m\<in>set (room_of (voiceRooms h) (channel_id d)). m \<noteq> c \<longrightarrow> \<not> closed (send (store h m))) \<longrightarrow>
            (\<exists>h'. handleMessage c evt h = Inr h' \<and> store h' c = store h c \<and>
               (distinct (room_of (voiceRooms h) (channel_id d)) \<longrightarrow>
                  (\<forall>m\<in>set (room_of (voiceRooms h) (channel_id d)). m \<noteq> c \<longrightarrow>
                     store h' m =
                       offer (Marshal \<lparr>Type = ''voice.media_state'',
                                 Data = [(''channel_id'', JString (channel_id d)),
                                         (''from_user_id'', JString (userID (store h c))),
                                         (''cam_enabled'', JBool (cam_enabled d)),
                                         (''screen_sharing'', JBool (screen_sharing d))]\<rparr>)
                         (store h m)))))"
proof -
  let ?ev = "media_state_event (userID (store h c)) d"
  let ?room = "room_of (voiceRooms h) (channel_id d)"
  have eq: "handleMessage c evt h = BroadcastToVoiceRoom (channel_id d) ?ev (Some c) h"
    using assms by (rule handleMessage_media_state)
  have "\<exists>h'. handleMessage c evt h = Inr h' \<and> store h' c = store h c \<and>
          (distinct ?room \<longrightarrow> (\<forall>m\<in>set ?room. m \<noteq> c \<longrightarrow> store h' m = offer (Marshal ?ev) (store h m)))"
    if opn: "\<forall>m\<in>set ?room. m \<noteq> c \<longrightarrow> \<not> closed (send (store h m))"
  proof -
    from opn have "\<forall>m\<in>set ?room. Some m \<noteq> Some c \<longrightarrow> \<not> closed (send (store h m))" by simp
    from BroadcastToVoiceRoom_total[OF this] obtain h' where
      b: "BroadcastToVoiceRoom (channel_id d) ?ev (Some c) h = Inr h'" by blast
    from BroadcastToVoiceRoom_store(1)[OF b, of c] have "store h' c = store h c" by simp
    moreover have "store h' m = offer (Marshal ?ev) (store h m)"
      if "distinct ?room" "m \<in> set ?room" "m \<noteq> c" for m
      using BroadcastToVoiceRoom_store(4)[OF b, of m] that by simp
    ultimately show ?thesis using b eq by auto
  qed
  then show ?thesis using eq by (simp add: media_state_event_def)
qed

theorem media_state_fanout_witness:
  "3 \<notin> set (room_of (voiceRooms call_room) ''general-voice'') \<and>
   (\<exists>h'. handleMessage 3 (media_frame ''general-voice'') call_room = Inr h' \<and>
      buf (send (store h' 1)) =
        [Marshal \<lparr>Type = ''voice.media_state'',
                  Data = [(''channel_id'', JString ''general-voice''),
                          (''from_user_id'', JString ''U3''),
                          (''cam_enabled'', JBool True), (''screen_sharing'', JBool False)]\<rparr>] \<and>
      buf (send (store h' 2)) =
        [Marshal \<lparr>Type = ''voice.media_state'',
                  Data = [(''channel_id'', JString ''general-voice''),
                          (''from_user_id'', JString ''U3''),
                          (''cam_enabled'', JBool True), (''screen_sharing'', JBool False)]\<rparr>] \<and>
      buf (send (store h' 3)) = [])"
proof -
  let ?gv = "''general-voice''"
  let ?d = "\<lparr>channel_id = ?gv, target_user_id = '''', payload = '''',
             cam_enabled = True, screen_sharing = False\<rparr>"
  have t: "msgType (media_frame ?gv) = ''voice.media_state''" by (simp add: media_frame_def)
  have d: "msgData (media_frame ?gv) = Some ?d" by (simp add: media_frame_def)
  have n: "channel_id ?d \<noteq> ''''" by simp
  have room0: "room_of (voiceRooms call_room) ?gv = [1, 2]"
    by (simp add: call_room_def room_of_def)
  have room: "room_of (voiceRooms call_room) (channel_id ?d) = [1, 2]"
    using room0 by simp
  have opn: "\<forall>m\<in>set (room_of (voiceRooms call_room) (channel_id ?d)). m \<noteq> 3 \<longrightarrow>
      \<not> closed (send (store call_room m))"
    unfolding room by (simp add: call_room_def mkClient_def)
  have dist: "distinct (room_of (voiceRooms call_room) (channel_id ?d))"
    unfolding room by simp
  from media_state_fanout[OF t d n, of 3 call_room] opn dist obtain h' where
    r: "handleMessage 3 (media_frame ?gv) call_room = Inr h'" and
    s: "store h' 3 = store call_room 3" and
    o: "\<forall>m\<in>set (room_of (voiceRooms call_room) (channel_id ?d)). m \<noteq> 3 \<longrightarrow>
          store h' m =
            offer (Marshal \<lparr>Type = ''voice.media_state'',
                      Data = [(''channel_id'', JString (channel_id ?d)),
                              (''from_user_id'', JString (userID (store call_room 3))),
                              (''cam_enabled'', JBool (cam_enabled ?d)),
                              (''screen_sharing'', JBool (screen_sharing ?d))]\<rparr>)
              (store call_room m)"
    by blast
  from o have "buf (send (store h' 1)) =
        [Marshal \<lparr>Type = ''voice.media_state'',
                  Data = [(''channel_id'', JString ?gv), (''from_user_id'', JString ''U3''),
                          (''cam_enabled'', JBool True), (''screen_sharing'', JBool False)]\<rparr>]"
    and "buf (send (store h' 2)) =
        [Marshal \<lparr>Type = ''voice.media_state'',
                  Data = [(''channel_id'', JString ?gv), (''from_user_id'', JString ''U3''),
                          (''cam_enabled'', JBool True), (''screen_sharing'', JBool False)]\<rparr>]"
    unfolding room by (simp_all add: offer_def call_room_def mkClient_def chan_cap_def)
  moreover from s have "buf (send (store h' 3)) = []" by (simp add: call_room_def mkClient_def)
  moreover have "3 \<notin> set (room_of (voiceRooms call_room) ?gv)"
    by (simp add: call_room_def room_of_def)
  ultimately show ?thesis using r by blast
qed

section \<open>Joining a room twice\<close>

text \<open>
  Claim C10. If the connection is already a member of the room, a further join leaves
  the registry as it is and returns a list that holds the connection's own user id;
  when the handler of \<^verbatim>\<open>voice.join\<close> returns, the registry is unchanged and the
  connection has been offered the \<^verbatim>\<open>voice.room_state\<close> event with that list as
  \<^verbatim>\<open>participants\<close>.
\<close>

theorem rejoin_lists_self:
  assumes "c \<in> set (room_of (voiceRooms h) chID)"
  shows "voiceRooms (snd (joinVoiceRoom chID c h)) = voiceRooms h
     \<and> userID (store h c) \<in> set (fst (joinVoiceRoom chID c h))
     \<and> (msgType evt = ''voice.join'' \<and> msgData evt = Some d \<and> channel_id d = chID \<and> chID \<noteq> ''''
          \<and> handleMessage c evt h = Inr h' \<longrightarrow>
          voiceRooms h' = voiceRooms h \<and>
          store h' c =
            offer (Marshal \<lparr>Type = ''voice.room_state'',
                            Data = [(''channel_id'', JString chID),
                                    (''participants'', JStrings (fst (joinVoiceRoom chID c h)))]\<rparr>)
              (store h c))"
proof -
  have r: "voiceRooms (snd (joinVoiceRoom chID c h)) = voiceRooms h"
    using assms room_of_member[OF assms] by (simp add: joinVoiceRoom_eq update_triv)
  have u: "userID (store h c) \<in> set (fst (joinVoiceRoom chID c h))"
    using assms by (auto simp: joinVoiceRoom_eq)
  have e: "voiceRooms h' = voiceRooms h \<and>
      store h' c = offer (Marshal (room_state chID (fst (joinVoiceRoom chID c h)))) (store h c)"
    if "msgType evt = ''voice.join''" "msgData evt = Some d" "channel_id d = chID" "chID \<noteq> ''''"
      "handleMessage c evt h = Inr h'"
    using handleMessage_join_effect[of evt d c h h'] that r by simp
  show ?thesis using r u e by (auto simp: room_state_def)
qed

theorem rejoin_lists_self_witness:
  "1 \<in> set (room_of (voiceRooms solo_room) ''general-voice'') \<and>
   ''U1'' \<in> set (fst (joinVoiceRoom ''general-voice'' 1 solo_room)) \<and>
   (\<exists>h'. handleMessage 1 (join_frame ''general-voice'') solo_room = Inr h' \<and>
      voiceRooms h' = voiceRooms solo_room \<and>
      buf (send (store h' 1)) = [Marshal (room_state ''general-voice'' [''U1''])])"
proof -
  let ?gv = "''general-voice''"
  have m: "1 \<in> set (room_of (voiceRooms solo_room) ?gv)"
    by (simp add: solo_room_def room_of_def)
  let ?d = "\<lparr>channel_id = ?gv, target_user_id = '''', payload = '''',
             cam_enabled = False, screen_sharing = False\<rparr>"
  have f: "msgType (join_frame ?gv) = ''voice.join''" "msgData (join_frame ?gv) = Some ?d"
    "channel_id ?d = ?gv" "?gv \<noteq> ''''"
    by (simp_all add: join_frame_def)
  from solo_rejoin obtain h' where
    s: "handleMessage 1 (join_frame ?gv) solo_room = Inr h'" and
    q: "buf (send (store h' 1)) = [Marshal (room_state ?gv [''U1''])]" by blast
  note R = rejoin_lists_self[OF m, of "join_frame ?gv" ?d h']
  from R have "userID (store solo_room 1) \<in> set (fst (joinVoiceRoom ?gv 1 solo_room))" by blast
  then have a: "''U1'' \<in> set (fst (joinVoiceRoom ?gv 1 solo_room))"
    by (simp add: solo_room_def mkClient_def)
  from R f s have "voiceRooms h' = voiceRooms solo_room" by blast
  with m a s q show ?thesis by blast
qed

end
